theory Spec2Isabelle
  imports Main
begin

section \<open>Python values used by the records\<close>

text \<open>
  Strings are \<^typ>\<open>string\<close>. \<open>str.lower\<close> is modelled on the ASCII letters; every other
  character is left as it is. The theorems below about equality and hashing do not
  unfold \<open>lower\<close>: they hold for whatever case folding the interpreter applies.
\<close>

definition lower_char :: "char \<Rightarrow> char" where
  "lower_char c =
     (case map_of (zip ''ABCDEFGHIJKLMNOPQRSTUVWXYZ'' ''abcdefghijklmnopqrstuvwxyz'') c of
        Some l \<Rightarrow> l
      | None \<Rightarrow> c)"

definition lower :: "string \<Rightarrow> string" where
  "lower s = map lower_char s"

text \<open>Truthiness of a value of type \<open>str | None\<close>: neither \<open>None\<close> nor the empty string.\<close>

definition truthy_str :: "string option \<Rightarrow> bool" where
  "truthy_str s = (case s of None \<Rightarrow> False | Some v \<Rightarrow> v \<noteq> [])"

text \<open>Truthiness of a value of type \<open>int | None\<close>: neither \<open>None\<close> nor zero.\<close>

definition truthy_int :: "int option \<Rightarrow> bool" where
  "truthy_int i = (case i of None \<Rightarrow> False | Some v \<Rightarrow> v \<noteq> 0)"

text \<open>\<open>str(i)\<close> of an integer, as an f-string formats it: decimal digits, \<open>-\<close> when negative.\<close>

definition digit_char :: "nat \<Rightarrow> char" where
  "digit_char d = ''0123456789'' ! d"

fun str_nat :: "nat \<Rightarrow> string" where
  "str_nat n = (if n < 10 then [digit_char n] else str_nat (n div 10) @ [digit_char (n mod 10)])"

declare str_nat.simps [simp del]

definition str_int :: "int \<Rightarrow> string" where
  "str_int i = (if i < 0 then CHR ''-'' # str_nat (nat (- i)) else str_nat (nat i))"

text \<open>An exception object: its class name and its message (what \<open>str(e)\<close> gives).\<close>

datatype py_exception = PyException (exc_class: string) (exc_message: string)

section \<open>Normalized records: scimesh/models.py\<close>

type_synonym date = "int \<times> int \<times> int"

record author =
  name :: string
  affiliation :: "string option"
  orcid :: "string option"

text \<open>\<open>extras\<close> is a dict of provider-specific values; it is kept as an association list.\<close>

record paper =
  title :: string
  authors :: "author list"
  year :: int
  source :: string
  abstract :: "string option"
  doi :: "string option"
  url :: "string option"
  topics :: "string list"
  citations_count :: "int option"
  publication_date :: "date option"
  journal :: "string option"
  extras :: "(string \<times> string) list"

text \<open>
  \<open>Paper.__hash__\<close> applies the builtin \<open>hash\<close> either to the DOI string or to the tuple
  \<open>(title.lower(), year)\<close>. The builtin is a parameter \<open>h\<close>; \<open>hashable\<close> is the value it is
  applied to.
\<close>

datatype hashable = HStr string | HTuple string int

definition paper_hash :: "(hashable \<Rightarrow> int) \<Rightarrow> paper \<Rightarrow> int" where
  "paper_hash h self =
     (case doi self of
        Some d \<Rightarrow> if d \<noteq> [] then h (HStr d) else h (HTuple (lower (title self)) (year self))
      | None \<Rightarrow> h (HTuple (lower (title self)) (year self)))"

text \<open>\<open>Paper.__eq__\<close>, for \<open>other\<close> a Paper.\<close>

definition paper_eq :: "paper \<Rightarrow> paper \<Rightarrow> bool" where
  "paper_eq self other =
     (if truthy_str (doi self) \<and> truthy_str (doi other) then doi self = doi other
      else lower (title self) = lower (title other) \<and> year self = year other)"

record search_result =
  papers :: "paper list"
  errors :: "string \<rightharpoonup> py_exception"
  total_by_provider :: "string \<rightharpoonup> nat"

text \<open>The key of the loop in \<open>SearchResult.dedupe\<close>.\<close>

definition dedupe_key :: "paper \<Rightarrow> string" where
  "dedupe_key paper =
     (case doi paper of
        Some d \<Rightarrow> if d \<noteq> [] then d else lower (title paper) @ '':'' @ str_int (year paper)
      | None \<Rightarrow> lower (title paper) @ '':'' @ str_int (year paper))"

text \<open>The loop of \<open>dedupe\<close> over the remaining papers, with the state \<open>seen\<close> and \<open>unique\<close>.\<close>

fun dedupe_loop :: "paper list \<Rightarrow> string set \<Rightarrow> paper list \<Rightarrow> paper list" where
  "dedupe_loop [] seen unique = unique"
| "dedupe_loop (paper # rest) seen unique =
     (let key = dedupe_key paper
      in if key \<notin> seen then dedupe_loop rest (insert key seen) (unique @ [paper])
         else dedupe_loop rest seen unique)"

definition dedupe :: "search_result \<Rightarrow> search_result" where
  "dedupe self =
     \<lparr>papers = dedupe_loop (papers self) {} [],
      errors = errors self,
      total_by_provider = total_by_provider self\<rparr>"

subsection \<open>Example records\<close>

text \<open>A Paper built with the required fields and a DOI, every other field at its default.\<close>

definition example_paper :: "string \<Rightarrow> int \<Rightarrow> string \<Rightarrow> string option \<Rightarrow> paper" where
  "example_paper t y src d =
     \<lparr>title = t, authors = [], year = y, source = src, abstract = None, doi = d, url = None,
      topics = [], citations_count = None, publication_date = None, journal = None,
      extras = []\<rparr>"

definition attention_arxiv :: paper where
  "attention_arxiv =
     example_paper ''Attention Is All You Need'' 2017 ''arxiv'' (Some ''10.48550/arXiv.1706.03762'')"

definition attention_openalex :: paper where
  "attention_openalex =
     example_paper ''Attention is all you need (v5)'' 2023 ''openalex''
       (Some ''10.48550/arXiv.1706.03762'')"

definition attention_scopus_no_doi :: paper where
  "attention_scopus_no_doi = example_paper ''ATTENTION IS ALL YOU NEED'' 2017 ''scopus'' None"

definition attention_empty_doi :: paper where
  "attention_empty_doi = example_paper ''Attention is All you Need'' 2017 ''openalex'' (Some [])"

subsection \<open>Deduplication as the specification words it\<close>

text \<open>
  The elements of a list that are not \<open>same\<close> as any earlier element, in their order:
  "keeping first occurrence".
\<close>

definition first_occurrences :: "('a \<Rightarrow> 'a \<Rightarrow> bool) \<Rightarrow> 'a list \<Rightarrow> 'a list" where
  "first_occurrences same xs =
     map (\<lambda>i. xs ! i) (filter (\<lambda>i. \<forall>j<i. \<not> same (xs ! j) (xs ! i)) [0..<length xs])"

definition same_key :: "paper \<Rightarrow> paper \<Rightarrow> bool" where
  "same_key p q = (dedupe_key p = dedupe_key q)"

definition doi_uniform :: "paper list \<Rightarrow> bool" where
  "doi_uniform ps = ((\<forall>p\<in>set ps. truthy_str (doi p)) \<or> (\<forall>p\<in>set ps. \<not> truthy_str (doi p)))"

definition mixed_doi_result :: search_result where
  "mixed_doi_result =
     \<lparr>papers = [attention_arxiv, attention_scopus_no_doi],
      errors = Map.empty,
      total_by_provider = [''arxiv'' \<mapsto> 1, ''scopus'' \<mapsto> 1]\<rparr>"

definition no_doi_result :: search_result where
  "no_doi_result =
     \<lparr>papers = [attention_scopus_no_doi, attention_empty_doi],
      errors = Map.empty,
      total_by_provider = [''scopus'' \<mapsto> 1, ''openalex'' \<mapsto> 1]\<rparr>"

section \<open>Query AST: scimesh/query/combinators.py\<close>

text \<open>
  The node classes \<open>Field\<close>, \<open>And\<close>, \<open>Or\<close>, \<open>Not\<close> and \<open>YearRange\<close>. \<open>Field\<close> and
  \<open>Not\<close> are constants of HOL already, so the two constructors carry a suffix. The field
  of a \<open>Field\<close> node is a string, as in the source.

  Modelled from the spec: \<open>CitationRange(min?, max?)\<close>, which the Semantic Scholar provider
  imports from this module; the module under src does not declare it.
\<close>

datatype query =
    FieldQ string string
  | And query query
  | Or query query
  | NotQ query
  | YearRange "int option" "int option"
  | CitationRange "int option" "int option"

section \<open>Batch search: scimesh/search.py\<close>

text \<open>\<open>OnError = Literal["fail", "ignore", "warn"]\<close>.\<close>

datatype on_error = Fail | Ignore | Warn

text \<open>
  The orchestrator sees a provider through its name and through what happens when it is
  entered and its search for a query and a limit is consumed: the papers it yields, in
  order, and the exception that ends the iteration, if any.
\<close>

record provider =
  provider_name :: string
  run_search :: "query \<Rightarrow> int \<Rightarrow> paper list \<times> py_exception option"

text \<open>
  \<open>fetch_one\<close> of \<open>_search_batch\<close>: the list comprehension is lost when the iteration raises,
  so a failing provider contributes no paper.
\<close>

definition batch_fetch_one ::
  "query \<Rightarrow> int \<Rightarrow> provider \<Rightarrow> string \<times> paper list \<times> py_exception option" where
  "batch_fetch_one query max_results provider =
     (case run_search provider query max_results of
        (found, None) \<Rightarrow> (provider_name provider, found, None)
      | (found, Some e) \<Rightarrow> (provider_name provider, [], Some e))"

text \<open>
  The state of the loop over the gathered results: the three locals and the warnings
  issued with \<open>warnings.warn\<close> so far. An exception object is truthy.
\<close>

record batch_state =
  all_papers :: "paper list"
  errors_acc :: "string \<rightharpoonup> py_exception"
  totals :: "string \<rightharpoonup> nat"
  warnings :: "string list"

definition failed_message :: "string \<Rightarrow> py_exception \<Rightarrow> string" where
  "failed_message pname error = ''Provider '' @ pname @ '' failed: '' @ exc_message error"

fun batch_loop ::
  "on_error \<Rightarrow> (string \<times> paper list \<times> py_exception option) list \<Rightarrow> batch_state
     \<Rightarrow> py_exception + batch_state" where
  "batch_loop on_error [] st = Inr st"
| "batch_loop on_error ((pname, found, Some error) # rest) st =
     (if on_error = Fail then Inl error
      else batch_loop on_error rest
             (st\<lparr>errors_acc := (errors_acc st)(pname \<mapsto> error),
                 warnings := (if on_error = Warn then warnings st @ [failed_message pname error]
                              else warnings st)\<rparr>))"
| "batch_loop on_error ((pname, found, None) # rest) st =
     batch_loop on_error rest
       (st\<lparr>all_papers := all_papers st @ found,
           totals := (totals st)(pname \<mapsto> length found)\<rparr>)"

text \<open>
  \<open>_search_batch\<close>: the exception re-raised under \<open>fail\<close>, or the result with the warnings
  issued. The \<open>logger.info\<close> lines are not modelled.
\<close>

definition search_batch ::
  "query \<Rightarrow> provider list \<Rightarrow> int \<Rightarrow> on_error \<Rightarrow> bool
     \<Rightarrow> py_exception + (search_result \<times> string list)" where
  "search_batch query providers max_results on_error dedupe_flag =
     (let results = map (batch_fetch_one query max_results) providers
      in case batch_loop on_error results
                \<lparr>all_papers = [], errors_acc = Map.empty, totals = Map.empty, warnings = []\<rparr> of
           Inl error \<Rightarrow> Inl error
         | Inr st \<Rightarrow>
             (let result = \<lparr>papers = all_papers st, errors = errors_acc st,
                            total_by_provider = totals st\<rparr>
              in Inr (if dedupe_flag then dedupe result else result, warnings st)))"

definition fails :: "query \<Rightarrow> int \<Rightarrow> provider \<Rightarrow> bool" where
  "fails query max_results p = (snd (run_search p query max_results) \<noteq> None)"

subsection \<open>Example providers\<close>

definition title_query :: query where
  "title_query = FieldQ ''title'' ''attention''"

definition scopus_without_key :: provider where
  "scopus_without_key =
     \<lparr>provider_name = ''scopus'',
      run_search = (\<lambda>q n. ([attention_scopus_no_doi],
        Some (PyException ''HTTPStatusError'' ''401 Unauthorized'')))\<rparr>"

definition openalex_two_papers :: provider where
  "openalex_two_papers =
     \<lparr>provider_name = ''openalex'',
      run_search = (\<lambda>q n. ([attention_openalex, attention_empty_doi], None))\<rparr>"

section \<open>OpenAlex query translation: scimesh/providers/openalex.py\<close>

text \<open>\<open>sep.join(xs)\<close>.\<close>

fun join :: "string \<Rightarrow> string list \<Rightarrow> string" where
  "join sep [] = []"
| "join sep [x] = x"
| "join sep (x # y # rest) = x @ sep @ join sep (y # rest)"

text \<open>
  The \<open>YearRange\<close> case of \<open>_collect_params\<close>: the filters it appends. A bound that is
  \<open>None\<close> or \<open>0\<close> is falsy.
\<close>

definition openalex_year_filters :: "int option \<Rightarrow> int option \<Rightarrow> string list" where
  "openalex_year_filters s e =
     (if truthy_int s \<and> truthy_int e then
        (if s = e then [''publication_year:'' @ str_int (the s)]
         else [''publication_year:'' @ str_int (the s) @ ''-'' @ str_int (the e)])
      else if truthy_int s then [''publication_year:>'' @ str_int (the s - 1)]
      else if truthy_int e then [''publication_year:<'' @ str_int (the e + 1)]
      else [])"

text \<open>
  \<open>_collect_params\<close>, with the two lists it appends to passed in and returned. A node that
  matches no case (a field name outside the six, a citation range) appends nothing.
\<close>

fun collect_params :: "query \<Rightarrow> string list \<Rightarrow> string list \<Rightarrow> string list \<times> string list" where
  "collect_params (FieldQ f v) search_terms filters =
     (if f = ''title'' \<or> f = ''abstract'' \<or> f = ''keyword'' \<or> f = ''fulltext''
        then (search_terms @ [v], filters)
      else if f = ''author'' then (search_terms, filters @ [''raw_author_name.search:'' @ v])
      else if f = ''doi'' then (search_terms, filters @ [''doi:'' @ v])
      else (search_terms, filters))"
| "collect_params (And l r) search_terms filters =
     (case collect_params l search_terms filters of
        (search_terms1, filters1) \<Rightarrow> collect_params r search_terms1 filters1)"
| "collect_params (Or l r) search_terms filters =
     (case collect_params l search_terms filters of
        (search_terms1, filters1) \<Rightarrow> collect_params r search_terms1 filters1)"
| "collect_params (NotQ operand) search_terms filters =
     (case collect_params operand [] [] of
        (neg_search, neg_filters) \<Rightarrow> (search_terms, filters @ map (\<lambda>f. ''!'' @ f) neg_filters))"
| "collect_params (YearRange s e) search_terms filters =
     (search_terms, filters @ openalex_year_filters s e)"
| "collect_params (CitationRange mn mx) search_terms filters = (search_terms, filters)"

text \<open>\<open>_build_params\<close>.\<close>

definition build_params :: "query \<Rightarrow> string \<times> string" where
  "build_params query =
     (case collect_params query [] [] of
        (search_terms, filters) \<Rightarrow> (join '' '' search_terms, join '','' filters))"

subsection \<open>The translation of negation as the specification words it\<close>

text \<open>
  The filter clauses of a query: author and DOI leaves and year ranges become clauses,
  negation prefixes each clause of its operand with \<open>!\<close>, and the search-term leaves
  (title, abstract, keyword, fulltext) give none.
\<close>

fun filter_clauses :: "query \<Rightarrow> string list" where
  "filter_clauses (FieldQ f v) =
     (if f = ''author'' then [''raw_author_name.search:'' @ v]
      else if f = ''doi'' then [''doi:'' @ v]
      else [])"
| "filter_clauses (And l r) = filter_clauses l @ filter_clauses r"
| "filter_clauses (Or l r) = filter_clauses l @ filter_clauses r"
| "filter_clauses (NotQ operand) = map (\<lambda>f. ''!'' @ f) (filter_clauses operand)"
| "filter_clauses (YearRange s e) = openalex_year_filters s e"
| "filter_clauses (CitationRange mn mx) = []"

text \<open>A query built from search-term leaves alone.\<close>

fun search_terms_only :: "query \<Rightarrow> bool" where
  "search_terms_only (FieldQ f v) =
     (f = ''title'' \<or> f = ''abstract'' \<or> f = ''keyword'' \<or> f = ''fulltext'')"
| "search_terms_only (And l r) = (search_terms_only l \<and> search_terms_only r)"
| "search_terms_only (Or l r) = (search_terms_only l \<and> search_terms_only r)"
| "search_terms_only (NotQ operand) = search_terms_only operand"
| "search_terms_only (YearRange s e) = False"
| "search_terms_only (CitationRange mn mx) = False"

definition negated_terms_query :: query where
  "negated_terms_query =
     And (FieldQ ''title'' ''bert'') (Or (FieldQ ''abstract'' ''gpt'') (NotQ (FieldQ ''fulltext'' ''llama'')))"

section \<open>HTTP and provider state: scimesh/providers/base.py\<close>

text \<open>
  A request is the URL before the query string, the parameters of the query string in
  their order (what \<open>urlencode\<close> receives) and the headers.
\<close>

record http_request =
  req_url :: string
  req_params :: "(string \<times> string) list"
  req_headers :: "(string \<times> string) list"

text \<open>
  A response: its status and the two entries of its JSON body that the providers read,
  the list of records (under \<open>results\<close>, \<open>entry\<close> or \<open>data\<close>) and \<open>total\<close>; \<open>None\<close> is an
  absent entry. The records have an abstract type \<open>'r\<close>; the functions that read them
  (\<open>_parse_work\<close>, \<open>_parse_entry\<close>, \<open>_parse_paper\<close>, the \<open>get\<close> of a field) are parameters
  of the searches below.
\<close>

record 'r http_response =
  status_code :: nat
  body_items :: "'r list option"
  body_total :: "int option"

text \<open>
  The network answers a request from its current state \<open>'w\<close> and moves to a new state, or
  raises (a transport error). \<open>io\<close> is the state of the outside world together with what
  a search has done to it so far: the requests sent, the delays slept, and the lines logged
  at warning or error level (level and text; \<open>debug\<close> and \<open>info\<close> lines are not modelled).
\<close>

type_synonym ('w, 'r) http_client =
  "http_request \<Rightarrow> 'w \<Rightarrow> (py_exception + 'r http_response) \<times> 'w"

record 'w io =
  world :: 'w
  requests :: "http_request list"
  sleeps :: "nat list"
  logged :: "(string \<times> string) list"

definition client_get ::
  "('w, 'r) http_client \<Rightarrow> http_request \<Rightarrow> 'w io \<Rightarrow> (py_exception + 'r http_response) \<times> 'w io" where
  "client_get c req io =
     (case c req (world io) of
        (answer, w) \<Rightarrow> (answer, io\<lparr>world := w, requests := requests io @ [req]\<rparr>))"

text \<open>\<open>Response.raise_for_status\<close> of httpx: every status outside 2xx raises.\<close>

definition raise_for_status :: "'r http_response \<Rightarrow> py_exception option" where
  "raise_for_status response =
     (if 200 \<le> status_code response \<and> status_code response < 300 then None
      else Some (PyException ''HTTPStatusError'' (str_int (int (status_code response)))))"

text \<open>The fields \<open>_api_key\<close> and \<open>_client\<close> of a \<open>Provider\<close>.\<close>

record ('w, 'r) provider_state =
  api_key :: "string option"
  client :: "('w, 'r) http_client option"

text \<open>\<open>a or b\<close> on values of type \<open>str | None\<close> and \<open>int | None\<close>.\<close>

definition or_str :: "string option \<Rightarrow> string option \<Rightarrow> string option" where
  "or_str a b = (if truthy_str a then a else b)"

definition or_int :: "int option \<Rightarrow> int option \<Rightarrow> int option" where
  "or_int a b = (if truthy_int a then a else b)"

text \<open>
  \<open>Provider.__init__\<close>, with the result of \<open>_load_from_env\<close> passed in, \<open>__aenter__\<close>, with
  the network the new client talks to passed in, and \<open>__aexit__\<close>.
\<close>

definition provider_init :: "string option \<Rightarrow> string option \<Rightarrow> ('w, 'r) provider_state" where
  "provider_init key from_env = \<lparr>api_key = or_str key from_env, client = None\<rparr>"

definition aenter ::
  "('w, 'r) http_client \<Rightarrow> ('w, 'r, 'z) provider_state_scheme \<Rightarrow> ('w, 'r, 'z) provider_state_scheme" where
  "aenter network self = self\<lparr>client := Some network\<rparr>"

definition aexit :: "('w, 'r, 'z) provider_state_scheme \<Rightarrow> ('w, 'r, 'z) provider_state_scheme" where
  "aexit self = (case client self of Some c \<Rightarrow> self\<lparr>client := None\<rparr> | None \<Rightarrow> self)"

text \<open>
  What consuming a provider's \<open>search\<close> to its end leaves: the papers yielded in order, the
  exception that ended the iteration, if any, and the world afterwards.
\<close>

record 'w outcome =
  yielded :: "paper list"
  raised :: "py_exception option"
  io_after :: "'w io"

definition not_initialized :: py_exception where
  "not_initialized =
     PyException ''RuntimeError''
       (''Provider not initialized. Use '' @ [CHR 0x27] @ ''async with provider:'' @ [CHR 0x27])"

section \<open>OpenAlex search: scimesh/providers/openalex.py\<close>

record ('w, 'r) openalex = "('w, 'r) provider_state" +
  mailto :: "string option"

definition openalex_request :: "('w, 'r) openalex \<Rightarrow> query \<Rightarrow> int \<Rightarrow> http_request" where
  "openalex_request self query max_results =
     (case build_params query of
        (search_terms, filter_str) \<Rightarrow>
          \<lparr>req_url = ''https://api.openalex.org/works'',
           req_params =
             [(''per_page'', str_int (min max_results 200))]
             @ (case mailto self of Some m \<Rightarrow> if m \<noteq> [] then [(''mailto'', m)] else [] | None \<Rightarrow> [])
             @ (if search_terms \<noteq> [] then [(''search'', search_terms)] else [])
             @ (if filter_str \<noteq> [] then [(''filter'', filter_str)] else []),
           req_headers = []\<rparr>)"

definition openalex_search ::
  "('r \<Rightarrow> paper option) \<Rightarrow> ('w, 'r) openalex \<Rightarrow> query \<Rightarrow> int \<Rightarrow> 'w io \<Rightarrow> 'w outcome" where
  "openalex_search parse_work self query max_results io =
     (case client self of
        None \<Rightarrow> \<lparr>yielded = [], raised = Some not_initialized, io_after = io\<rparr>
      | Some c \<Rightarrow>
          (case client_get c (openalex_request self query max_results) io of
             (Inl e, io1) \<Rightarrow> \<lparr>yielded = [], raised = Some e, io_after = io1\<rparr>
           | (Inr response, io1) \<Rightarrow>
               (case raise_for_status response of
                  Some e \<Rightarrow> \<lparr>yielded = [], raised = Some e, io_after = io1\<rparr>
                | None \<Rightarrow>
                    \<lparr>yielded = List.map_filter parse_work
                                 (case body_items response of Some works \<Rightarrow> works | None \<Rightarrow> []),
                     raised = None, io_after = io1\<rparr>)))"

section \<open>Scopus search: scimesh/providers/scopus.py\<close>

definition unsupported_node :: py_exception where
  "unsupported_node = PyException ''ValueError'' ''Unsupported query node''"

text \<open>The \<open>YearRange\<close> case of \<open>_translate_query\<close>.\<close>

definition scopus_year :: "int option \<Rightarrow> int option \<Rightarrow> string" where
  "scopus_year s e =
     (if truthy_int s \<and> truthy_int e then
        (if s = e then ''PUBYEAR = '' @ str_int (the s)
         else ''(PUBYEAR > '' @ str_int (the s - 1) @ '' AND PUBYEAR < '' @ str_int (the e + 1) @ '')'')
      else if truthy_int s then ''PUBYEAR > '' @ str_int (the s - 1)
      else if truthy_int e then ''PUBYEAR < '' @ str_int (the e + 1)
      else [])"

text \<open>
  \<open>Scopus._translate_query\<close>. A node that matches no case raises \<open>ValueError\<close>; its message
  carries the \<open>repr\<close> of the node, which is left out here.
\<close>

fun scopus_translate_query :: "query \<Rightarrow> py_exception + string" where
  "scopus_translate_query (FieldQ f v) =
     (if f = ''title'' then Inr (''TITLE('' @ v @ '')'')
      else if f = ''author'' then Inr (''AUTH('' @ v @ '')'')
      else if f = ''abstract'' then Inr (''ABS('' @ v @ '')'')
      else if f = ''keyword'' then Inr (''KEY('' @ v @ '')'')
      else if f = ''fulltext'' then Inr (''ALL('' @ v @ '')'')
      else if f = ''doi'' then Inr (''DOI('' @ v @ '')'')
      else Inl unsupported_node)"
| "scopus_translate_query (And l r) =
     (case scopus_translate_query l of
        Inl e \<Rightarrow> Inl e
      | Inr a \<Rightarrow>
          (case scopus_translate_query r of
             Inl e \<Rightarrow> Inl e
           | Inr b \<Rightarrow> Inr (''('' @ a @ '' AND '' @ b @ '')'')))"
| "scopus_translate_query (Or l r) =
     (case scopus_translate_query l of
        Inl e \<Rightarrow> Inl e
      | Inr a \<Rightarrow>
          (case scopus_translate_query r of
             Inl e \<Rightarrow> Inl e
           | Inr b \<Rightarrow> Inr (''('' @ a @ '' OR '' @ b @ '')'')))"
| "scopus_translate_query (NotQ operand) =
     (case scopus_translate_query operand of
        Inl e \<Rightarrow> Inl e
      | Inr a \<Rightarrow> Inr (''NOT '' @ a))"
| "scopus_translate_query (YearRange s e) = Inr (scopus_year s e)"
| "scopus_translate_query (CitationRange mn mx) = Inl unsupported_node"

definition scopus_request :: "string \<Rightarrow> string \<Rightarrow> int \<Rightarrow> http_request" where
  "scopus_request key query_str max_results =
     \<lparr>req_url = ''https://api.elsevier.com/content/search/scopus'',
      req_params = [(''query'', query_str), (''count'', str_int (min max_results 25)),
                    (''start'', ''0''), (''view'', ''COMPLETE'')],
      req_headers = [(''X-ELS-APIKey'', key), (''Accept'', ''application/json'')]\<rparr>"

definition scopus_search ::
  "('r \<Rightarrow> paper option) \<Rightarrow> ('w, 'r) provider_state \<Rightarrow> query \<Rightarrow> int \<Rightarrow> 'w io \<Rightarrow> 'w outcome" where
  "scopus_search parse_entry self query max_results io =
     (case client self of
        None \<Rightarrow> \<lparr>yielded = [], raised = Some not_initialized, io_after = io\<rparr>
      | Some c \<Rightarrow>
          if \<not> truthy_str (api_key self) then
            \<lparr>yielded = [],
             raised = Some (PyException ''ValueError''
               ''Scopus requires an API key. Set SCOPUS_API_KEY or pass api_key=''),
             io_after = io\<rparr>
          else
            (case scopus_translate_query query of
               Inl e \<Rightarrow> \<lparr>yielded = [], raised = Some e, io_after = io\<rparr>
             | Inr query_str \<Rightarrow>
                 (case client_get c (scopus_request (the (api_key self)) query_str max_results) io of
                    (Inl e, io1) \<Rightarrow> \<lparr>yielded = [], raised = Some e, io_after = io1\<rparr>
                  | (Inr response, io1) \<Rightarrow>
                      (case raise_for_status response of
                         Some e \<Rightarrow> \<lparr>yielded = [], raised = Some e, io_after = io1\<rparr>
                       | None \<Rightarrow>
                           \<lparr>yielded = List.map_filter parse_entry
                                        (case body_items response of Some entries \<Rightarrow> entries
                                         | None \<Rightarrow> []),
                            raised = None, io_after = io1\<rparr>))))"

section \<open>Query analysis used by the providers\<close>

text \<open>
  Modelled from the spec: \<open>has_fulltext\<close>, \<open>extract_fulltext_term\<close>, \<open>remove_fulltext\<close>,
  \<open>extract_citation_range\<close> and \<open>remove_citation_range\<close> of scimesh/query/combinators.py,
  which the providers import and the module under src does not define. Extraction is the
  first matching node in pre-order, left to right; removal drops every matching node, an
  \<open>And\<close> or \<open>Or\<close> that loses one operand collapses to the other, and a \<open>Not\<close> that loses
  its operand, or a tree that loses everything, gives \<open>None\<close>.
\<close>

fun has_fulltext :: "query \<Rightarrow> bool" where
  "has_fulltext (FieldQ f v) = (f = ''fulltext'')"
| "has_fulltext (And l r) = (has_fulltext l \<or> has_fulltext r)"
| "has_fulltext (Or l r) = (has_fulltext l \<or> has_fulltext r)"
| "has_fulltext (NotQ operand) = has_fulltext operand"
| "has_fulltext (YearRange s e) = False"
| "has_fulltext (CitationRange mn mx) = False"

fun extract_fulltext_term :: "query \<Rightarrow> string option" where
  "extract_fulltext_term (FieldQ f v) = (if f = ''fulltext'' then Some v else None)"
| "extract_fulltext_term (And l r) =
     (case extract_fulltext_term l of Some v \<Rightarrow> Some v | None \<Rightarrow> extract_fulltext_term r)"
| "extract_fulltext_term (Or l r) =
     (case extract_fulltext_term l of Some v \<Rightarrow> Some v | None \<Rightarrow> extract_fulltext_term r)"
| "extract_fulltext_term (NotQ operand) = extract_fulltext_term operand"
| "extract_fulltext_term (YearRange s e) = None"
| "extract_fulltext_term (CitationRange mn mx) = None"

definition collapse :: "(query \<Rightarrow> query \<Rightarrow> query) \<Rightarrow> query option \<Rightarrow> query option \<Rightarrow> query option" where
  "collapse node l r =
     (case l of
        None \<Rightarrow> r
      | Some a \<Rightarrow> (case r of None \<Rightarrow> Some a | Some b \<Rightarrow> Some (node a b)))"

fun remove_fulltext :: "query \<Rightarrow> query option" where
  "remove_fulltext (FieldQ f v) = (if f = ''fulltext'' then None else Some (FieldQ f v))"
| "remove_fulltext (And l r) = collapse And (remove_fulltext l) (remove_fulltext r)"
| "remove_fulltext (Or l r) = collapse Or (remove_fulltext l) (remove_fulltext r)"
| "remove_fulltext (NotQ operand) = map_option NotQ (remove_fulltext operand)"
| "remove_fulltext (YearRange s e) = Some (YearRange s e)"
| "remove_fulltext (CitationRange mn mx) = Some (CitationRange mn mx)"

text \<open>The citation range found, as the pair of its \<open>min\<close> and \<open>max\<close>.\<close>

fun extract_citation_range :: "query \<Rightarrow> (int option \<times> int option) option" where
  "extract_citation_range (FieldQ f v) = None"
| "extract_citation_range (And l r) =
     (case extract_citation_range l of Some c \<Rightarrow> Some c | None \<Rightarrow> extract_citation_range r)"
| "extract_citation_range (Or l r) =
     (case extract_citation_range l of Some c \<Rightarrow> Some c | None \<Rightarrow> extract_citation_range r)"
| "extract_citation_range (NotQ operand) = extract_citation_range operand"
| "extract_citation_range (YearRange s e) = None"
| "extract_citation_range (CitationRange mn mx) = Some (mn, mx)"

fun remove_citation_range :: "query \<Rightarrow> query option" where
  "remove_citation_range (FieldQ f v) = Some (FieldQ f v)"
| "remove_citation_range (And l r) =
     collapse And (remove_citation_range l) (remove_citation_range r)"
| "remove_citation_range (Or l r) =
     collapse Or (remove_citation_range l) (remove_citation_range r)"
| "remove_citation_range (NotQ operand) = map_option NotQ (remove_citation_range operand)"
| "remove_citation_range (YearRange s e) = Some (YearRange s e)"
| "remove_citation_range (CitationRange mn mx) = None"

section \<open>Fulltext fallback: scimesh/providers/_fulltext_fallback.py\<close>

text \<open>
  The loop of \<open>_search_with_fulltext_filter\<close> over what \<open>_search_api\<close> yields: the papers
  still to come and the exception that ends them, if any. It returns at the first paper
  that arrives once \<open>max_results\<close> matches were yielded, so an exception after that point is
  never raised. A paper matches when its DOI, or else the \<open>paper_id\<close> of its extras, is
  non-empty and among the identifiers the local index returned.
\<close>

fun fulltext_filter_loop ::
  "string set \<Rightarrow> int \<Rightarrow> paper list \<Rightarrow> py_exception option \<Rightarrow> nat \<Rightarrow> paper list \<times> py_exception option" where
  "fulltext_filter_loop matching_ids max_results [] error count = ([], error)"
| "fulltext_filter_loop matching_ids max_results (paper # rest) error count =
     (if int count \<ge> max_results then ([], None)
      else
        (let paper_id = or_str (doi paper) (map_of (extras paper) ''paper_id'')
         in if truthy_str paper_id \<and> the paper_id \<in> matching_ids then
              (case fulltext_filter_loop matching_ids max_results rest error (count + 1) of
                 (found, err) \<Rightarrow> (paper # found, err))
            else fulltext_filter_loop matching_ids max_results rest error count))"

text \<open>
  What consuming \<open>_search_with_fulltext_filter\<close> leaves: the papers, the exception, the
  warnings logged, and the calls made to \<open>_search_api\<close> (query and limit), which are the
  only way this method reaches the remote service.
\<close>

record fallback_outcome =
  fb_yielded :: "paper list"
  fb_raised :: "py_exception option"
  fb_warnings :: "string list"
  fb_api_calls :: "(query \<times> int) list"

definition fulltext_warning :: string where
  "fulltext_warning =
     ''Fulltext search requires additional filters for providers without native fulltext support. Add TITLE(), AUTHOR(), or other filters. Example: ALL(term) AND TITLE(topic)''"

text \<open>
  \<open>FulltextFallbackMixin._search_with_fulltext_filter\<close>. The local index
  (\<open>FulltextIndex().search(term, limit)\<close>) and the provider's \<open>_search_api\<close> are parameters.
\<close>

definition search_with_fulltext_filter ::
  "(string \<Rightarrow> nat \<Rightarrow> string list) \<Rightarrow> (query \<Rightarrow> int \<Rightarrow> paper list \<times> py_exception option)
     \<Rightarrow> query \<Rightarrow> int \<Rightarrow> fallback_outcome" where
  "search_with_fulltext_filter index_search search_api query max_results =
     (let term = extract_fulltext_term query
      in if \<not> truthy_str term then
           \<lparr>fb_yielded = [], fb_raised = None, fb_warnings = [], fb_api_calls = []\<rparr>
         else
           (case remove_fulltext query of
              None \<Rightarrow>
                \<lparr>fb_yielded = [], fb_raised = None, fb_warnings = [fulltext_warning],
                 fb_api_calls = []\<rparr>
            | Some base_query \<Rightarrow>
                (let matching_ids = set (index_search (the term) 10000)
                 in if matching_ids = {} then
                      \<lparr>fb_yielded = [], fb_raised = None, fb_warnings = [], fb_api_calls = []\<rparr>
                    else
                      (case search_api base_query (max_results * 3) of
                         (found, error) \<Rightarrow>
                           (case fulltext_filter_loop matching_ids max_results found error 0 of
                              (kept, err) \<Rightarrow>
                                \<lparr>fb_yielded = kept, fb_raised = err, fb_warnings = [],
                                 fb_api_calls = [(base_query, max_results * 3)]\<rparr>)))))"

section \<open>Semantic Scholar: scimesh/providers/semantic_scholar.py\<close>

definition PAGE_SIZE :: nat where
  "PAGE_SIZE = 100"

definition MAX_TOTAL_RESULTS :: nat where
  "MAX_TOTAL_RESULTS = 1000"

definition API_FIELDS :: string where
  "API_FIELDS =
     ''paperId,title,abstract,authors,year,citationCount,referenceCount,venue,publicationDate,openAccessPdf,isOpenAccess,fieldsOfStudy,externalIds''"

text \<open>
  \<open>_collect_terms\<close>, with the list of terms passed in and returned next to the year range.
\<close>

fun collect_terms :: "query \<Rightarrow> string list \<Rightarrow> string list \<times> int option \<times> int option" where
  "collect_terms (FieldQ f v) terms =
     (if f = ''title'' then (terms @ [[CHR 0x22] @ v @ [CHR 0x22]], None, None)
      else if f = ''author'' \<or> f = ''abstract'' \<or> f = ''keyword'' \<or> f = ''fulltext'' \<or> f = ''doi''
        then (terms @ [v], None, None)
      else (terms, None, None))"
| "collect_terms (And l r) terms =
     (case collect_terms l terms of
        (terms1, ys1, ye1) \<Rightarrow>
          (case collect_terms r terms1 of
             (terms2, ys2, ye2) \<Rightarrow> (terms2, or_int ys1 ys2, or_int ye1 ye2)))"
| "collect_terms (Or l r) terms =
     (case collect_terms l [] of
        (left_terms, ys1, ye1) \<Rightarrow>
          (case collect_terms r [] of
             (right_terms, ys2, ye2) \<Rightarrow>
               (if left_terms \<noteq> [] \<and> right_terms \<noteq> [] then
                  terms @ [''('' @ join '' '' left_terms @ '' | '' @ join '' '' right_terms @ '')'']
                else if left_terms \<noteq> [] then terms @ left_terms
                else if right_terms \<noteq> [] then terms @ right_terms
                else terms,
                or_int ys1 ys2, or_int ye1 ye2)))"
| "collect_terms (NotQ operand) terms =
     (case collect_terms operand [] of
        (neg_terms, ys, ye) \<Rightarrow> (terms @ map (\<lambda>t. ''-'' @ t) neg_terms, ys, ye))"
| "collect_terms (YearRange s e) terms = (terms, s, e)"
| "collect_terms (CitationRange mn mx) terms = (terms, None, None)"

definition translate_query :: "query \<Rightarrow> string \<times> int option \<times> int option" where
  "translate_query query =
     (case collect_terms query [] of
        (terms, year_start, year_end) \<Rightarrow> (join '' '' terms, year_start, year_end))"

fun extract_author_only :: "query \<Rightarrow> string option" where
  "extract_author_only (FieldQ f v) = (if f = ''author'' then Some v else None)"
| "extract_author_only q = None"

fun extract_author_filter :: "query \<Rightarrow> string option" where
  "extract_author_filter (FieldQ f v) = (if f = ''author'' then Some v else None)"
| "extract_author_filter (And l r) = or_str (extract_author_filter l) (extract_author_filter r)"
| "extract_author_filter (Or l r) = or_str (extract_author_filter l) (extract_author_filter r)"
| "extract_author_filter q = None"

fun extract_title_filter :: "query \<Rightarrow> string option" where
  "extract_title_filter (FieldQ f v) = (if f = ''title'' then Some v else None)"
| "extract_title_filter (And l r) = or_str (extract_title_filter l) (extract_title_filter r)"
| "extract_title_filter (Or l r) = or_str (extract_title_filter l) (extract_title_filter r)"
| "extract_title_filter q = None"

text \<open>
  \<open>_fetch_with_retry\<close> from attempt \<open>attempt\<close> on, with the current \<open>retry_delay\<close> in
  seconds: the response, \<open>None\<close>, or the exception raised. Only \<open>HTTPStatusError\<close> is caught
  and retried; what the client itself raises propagates.
\<close>

function fetch_attempts ::
  "('w, 'r) http_client \<Rightarrow> http_request \<Rightarrow> nat \<Rightarrow> nat \<Rightarrow> 'w io
     \<Rightarrow> (py_exception + 'r http_response option) \<times> 'w io" where
  "fetch_attempts c req attempt retry_delay io =
     (if attempt < 3 then
        (case client_get c req io of
           (Inl e, io1) \<Rightarrow> (Inl e, io1)
         | (Inr response, io1) \<Rightarrow>
             if status_code response = 429 \<and> attempt < 3 - 1 then
               fetch_attempts c req (attempt + 1) (retry_delay * 2)
                 (io1\<lparr>logged := logged io1 @ [(''warning'', ''Rate limited (429), retrying'')],
                      sleeps := sleeps io1 @ [retry_delay]\<rparr>)
             else
               (let io2 = (if status_code response = 429
                           then io1\<lparr>logged := logged io1 @ [(''error'', ''Rate limited'')]\<rparr>
                           else io1)
                in case raise_for_status response of
                     None \<Rightarrow> (Inr (Some response), io2)
                   | Some e \<Rightarrow>
                       if attempt = 3 - 1 then (Inl e, io2)
                       else fetch_attempts c req (attempt + 1) retry_delay io2))
      else (Inr None, io))"
  by pat_completeness auto
termination
  by (relation "measure (\<lambda>(c, req, attempt, retry_delay, io). 3 - attempt)") auto

declare fetch_attempts.simps [simp del]

definition fetch_with_retry ::
  "('w, 'r) http_client option \<Rightarrow> http_request \<Rightarrow> 'w io
     \<Rightarrow> (py_exception + 'r http_response option) \<times> 'w io" where
  "fetch_with_retry cl req io =
     (case cl of
        None \<Rightarrow> (Inr None, io)
      | Some c \<Rightarrow> fetch_attempts c req 0 1 io)"

definition api_key_headers :: "string option \<Rightarrow> (string \<times> string) list" where
  "api_key_headers key = (if truthy_str key then [(''x-api-key'', the key)] else [])"

text \<open>
  The parameters of the first request of \<open>fetch_pages\<close>, and the request for an offset:
  \<open>params["offset"] = offset\<close> adds the entry at the end the first time and overwrites it
  afterwards.
\<close>

definition page_params ::
  "string \<Rightarrow> (int option \<times> int option) option \<Rightarrow> int option \<Rightarrow> int option \<Rightarrow> (string \<times> string) list" where
  "page_params query_str citation_filter year_start year_end =
     [(''query'', query_str), (''limit'', str_int (int PAGE_SIZE)), (''fields'', API_FIELDS)]
     @ (case citation_filter of
          Some (Some mn, mx) \<Rightarrow> [(''minCitationCount'', str_int mn)]
        | _ \<Rightarrow> [])
     @ (if truthy_int year_start then
          [(''year'', if \<not> truthy_int year_end then str_int (the year_start) @ ''-''
                      else str_int (the year_start) @ ''-'' @ str_int (the year_end))]
        else if truthy_int year_end then [(''year'', ''-'' @ str_int (the year_end))]
        else [])"

definition page_request :: "(string \<times> string) list \<Rightarrow> string option \<Rightarrow> nat \<Rightarrow> http_request" where
  "page_request params key offset =
     \<lparr>req_url = ''https://api.semanticscholar.org/graph/v1/paper/search'',
      req_params = params @ [(''offset'', str_int (int offset))],
      req_headers = api_key_headers key\<rparr>"

text \<open>
  The loop of \<open>fetch_pages\<close> from \<open>offset\<close> on: the pages yielded, the exception raised by
  a fetch, if any, and the world afterwards. \<open>total\<close> is \<open>data.get("total", 0)\<close> and
  \<open>results\<close> is \<open>data.get("data", [])\<close>.
\<close>

definition page_total :: "'r http_response \<Rightarrow> int" where
  "page_total data = (case body_total data of Some t \<Rightarrow> t | None \<Rightarrow> 0)"

definition page_results :: "'r http_response \<Rightarrow> 'r list" where
  "page_results data = (case body_items data of Some rs \<Rightarrow> rs | None \<Rightarrow> [])"

function fetch_pages ::
  "('w, 'r) http_client option \<Rightarrow> (string \<times> string) list \<Rightarrow> string option \<Rightarrow> nat \<Rightarrow> 'w io
     \<Rightarrow> 'r http_response list \<times> py_exception option \<times> 'w io" where
  "fetch_pages cl params key offset io =
     (if offset < MAX_TOTAL_RESULTS then
        (case fetch_with_retry cl (page_request params key offset) io of
           (Inl e, io1) \<Rightarrow> ([], Some e, io1)
         | (Inr None, io1) \<Rightarrow> ([], None, io1)
         | (Inr (Some data), io1) \<Rightarrow>
             if offset + PAGE_SIZE \<ge> MAX_TOTAL_RESULTS
                \<or> int (offset + PAGE_SIZE) \<ge> page_total data
                \<or> length (page_results data) < PAGE_SIZE
             then ([data], None, io1)
             else
               (case fetch_pages cl params key (offset + PAGE_SIZE) io1 of
                  (pages, err, io2) \<Rightarrow> (data # pages, err, io2)))
      else ([], None, io))"
  by pat_completeness auto
termination
  by (relation "measure (\<lambda>(cl, params, key, offset, io). MAX_TOTAL_RESULTS - offset)")
    (auto simp: PAGE_SIZE_def MAX_TOTAL_RESULTS_def)

declare fetch_pages.simps [simp del]

text \<open>\<open>passes_max_citations\<close> of \<open>_search_api\<close>.\<close>

definition passes_max_citations :: "(int option \<times> int option) option \<Rightarrow> paper \<Rightarrow> bool" where
  "passes_max_citations citation_filter paper =
     (case citation_filter of
        Some (mn, Some mx) \<Rightarrow>
          (case citations_count paper of Some n \<Rightarrow> n \<le> mx | None \<Rightarrow> False)
      | _ \<Rightarrow> True)"

text \<open>
  \<open>SemanticScholar._search_api\<close>, consumed to its end. The stream pipeline flattens the
  pages, parses each record and keeps the papers that pass the citation bound.
  \<open>parse_paper\<close> stands for \<open>_parse_paper\<close> on the records where it returns, \<open>None\<close> for
  a record without a title; a record on which the parser raises is outside this model.
\<close>

definition search_api ::
  "('r \<Rightarrow> paper option) \<Rightarrow> ('w, 'r) provider_state \<Rightarrow> query \<Rightarrow> 'w io \<Rightarrow> 'w outcome" where
  "search_api parse_paper self query io =
     (case client self of
        None \<Rightarrow> \<lparr>yielded = [], raised = Some not_initialized, io_after = io\<rparr>
      | Some c \<Rightarrow>
          (let citation_filter = extract_citation_range query
           in case remove_citation_range query of
                None \<Rightarrow> \<lparr>yielded = [], raised = None, io_after = io\<rparr>
              | Some query_without_citations \<Rightarrow>
                  (case translate_query query_without_citations of
                     (query_str, year_start, year_end) \<Rightarrow>
                       if query_str = [] then \<lparr>yielded = [], raised = None, io_after = io\<rparr>
                       else
                         (case fetch_pages (client self)
                                 (page_params query_str citation_filter year_start year_end)
                                 (api_key self) 0 io of
                            (pages, err, io1) \<Rightarrow>
                              \<lparr>yielded = filter (passes_max_citations citation_filter)
                                           (List.map_filter parse_paper
                                              (concat (map page_results pages))),
                               raised = err, io_after = io1\<rparr>))))"

text \<open>\<open>max(xs, key=k)\<close> of a non-empty list: the first element with the largest key.\<close>

fun max_by :: "('a \<Rightarrow> int) \<Rightarrow> 'a \<Rightarrow> 'a list \<Rightarrow> 'a" where
  "max_by k best [] = best"
| "max_by k best (x # xs) = max_by k (if k x > k best then x else best) xs"

text \<open>
  The two URLs of \<open>_search_by_author\<close> are f-strings: the author name, the author id and
  the fields are pasted in as they are, without percent-encoding.
\<close>

definition author_search_request :: "string \<Rightarrow> string option \<Rightarrow> http_request" where
  "author_search_request author_name key =
     \<lparr>req_url = ''https://api.semanticscholar.org/graph/v1/author/search?query='' @ author_name
                 @ ''&limit=10&fields=authorId,name,paperCount,citationCount'',
      req_params = [],
      req_headers = api_key_headers key\<rparr>"

definition author_papers_request :: "string \<Rightarrow> string option \<Rightarrow> nat \<Rightarrow> http_request" where
  "author_papers_request author_id key offset =
     \<lparr>req_url = ''https://api.semanticscholar.org/graph/v1/author/'' @ author_id
                 @ ''/papers?offset='' @ str_int (int offset) @ ''&limit=100&fields='' @ API_FIELDS,
      req_params = [],
      req_headers = api_key_headers key\<rparr>"

text \<open>
  The \<open>while True\<close> loop of \<open>_search_by_author\<close> from \<open>offset\<close> on: the records of the pages
  fetched, the exception raised by a fetch, if any, and the world afterwards.
\<close>

function author_pages ::
  "('w, 'r) http_client option \<Rightarrow> string \<Rightarrow> string option \<Rightarrow> nat \<Rightarrow> 'w io
     \<Rightarrow> 'r list \<times> py_exception option \<times> 'w io" where
  "author_pages cl author_id key offset io =
     (case fetch_with_retry cl (author_papers_request author_id key offset) io of
        (Inl e, io1) \<Rightarrow> ([], Some e, io1)
      | (Inr None, io1) \<Rightarrow> ([], None, io1)
      | (Inr (Some response), io1) \<Rightarrow>
          (let found = page_results response
           in if found = [] then ([], None, io1)
              else if length found < 100 \<or> offset + 100 \<ge> MAX_TOTAL_RESULTS
                then (found, None, io1)
              else
                (case author_pages cl author_id key (offset + 100) io1 of
                   (later, err, io2) \<Rightarrow> (found @ later, err, io2))))"
  by pat_completeness auto
termination
  by (relation "measure (\<lambda>(cl, author_id, key, offset, io). MAX_TOTAL_RESULTS - offset)")
    (auto simp: MAX_TOTAL_RESULTS_def)

declare author_pages.simps [simp del]

text \<open>
  \<open>_search_by_author\<close>, consumed to its end. \<open>citation_count\<close> reads
  \<open>a.get("citationCount", 0)\<close> and \<open>author_id\<close> reads \<open>a.get("authorId")\<close> of an author record.
\<close>

definition search_by_author ::
  "('r \<Rightarrow> paper option) \<Rightarrow> ('r \<Rightarrow> int) \<Rightarrow> ('r \<Rightarrow> string option)
     \<Rightarrow> ('w, 'r) provider_state \<Rightarrow> string \<Rightarrow> 'w io \<Rightarrow> 'w outcome" where
  "search_by_author parse_paper citation_count author_id self author_name io =
     (case client self of
        None \<Rightarrow> \<lparr>yielded = [], raised = Some not_initialized, io_after = io\<rparr>
      | Some c \<Rightarrow>
          (case fetch_with_retry (client self) (author_search_request author_name (api_key self)) io of
             (Inl e, io1) \<Rightarrow> \<lparr>yielded = [], raised = Some e, io_after = io1\<rparr>
           | (Inr None, io1) \<Rightarrow> \<lparr>yielded = [], raised = None, io_after = io1\<rparr>
           | (Inr (Some response), io1) \<Rightarrow>
               (case page_results response of
                  [] \<Rightarrow> \<lparr>yielded = [], raised = None, io_after = io1\<rparr>
                | a # others \<Rightarrow>
                    (let best_author = max_by citation_count a others
                     in if \<not> truthy_str (author_id best_author) then
                          \<lparr>yielded = [], raised = None, io_after = io1\<rparr>
                        else
                          (case author_pages (client self) (the (author_id best_author))
                                  (api_key self) 0 io1 of
                             (found, err, io2) \<Rightarrow>
                               \<lparr>yielded = List.map_filter parse_paper found, raised = err,
                                io_after = io2\<rparr>)))))"

text \<open>\<open>sub in s\<close> on strings.\<close>

fun starts_with :: "string \<Rightarrow> string \<Rightarrow> bool" where
  "starts_with s [] = True"
| "starts_with [] (p # ps) = False"
| "starts_with (x # xs) (p # ps) = (x = p \<and> starts_with xs ps)"

fun contains :: "string \<Rightarrow> string \<Rightarrow> bool" where
  "contains [] sub = (sub = [])"
| "contains (x # xs) sub = (starts_with (x # xs) sub \<or> contains xs sub)"

text \<open>The client-side filter at the end of \<open>SemanticScholar.search\<close>: the papers not skipped.\<close>

definition passes_client_filters :: "string option \<Rightarrow> string option \<Rightarrow> paper \<Rightarrow> bool" where
  "passes_client_filters author_filter title_filter paper =
     (\<not> (truthy_str author_filter
         \<and> \<not> contains (lower (join '' '' (map name (authors paper)))) (lower (the author_filter)))
      \<and> \<not> (truthy_str title_filter
           \<and> \<not> contains (lower (title paper)) (lower (the title_filter))))"

text \<open>
  The two \<open>TypeError\<close>s of argument binding. \<open>SemanticScholar.search(self, query)\<close> has no
  \<open>max_results\<close> parameter, so a call with a second positional argument fails before the
  body runs. \<open>_search_with_fulltext_filter(self, query, max_results)\<close> of the mixin has no
  default for \<open>max_results\<close>, so the call with the query alone fails likewise.
\<close>

definition too_many_positional :: py_exception where
  "too_many_positional =
     PyException ''TypeError''
       ''SemanticScholar.search() takes 2 positional arguments but 3 were given''"

definition missing_max_results :: py_exception where
  "missing_max_results =
     PyException ''TypeError''
       (''FulltextFallbackMixin._search_with_fulltext_filter() missing 1 required positional argument: ''
        @ [CHR 0x27] @ ''max_results'' @ [CHR 0x27])"

text \<open>
  \<open>SemanticScholar.search\<close>, consumed to its end. It takes the query alone. The fulltext
  branch calls \<open>self._search_with_fulltext_filter(query)\<close>, one argument short, which raises
  when the first item is asked for and sends nothing.
\<close>

definition semantic_scholar_search ::
  "('r \<Rightarrow> paper option) \<Rightarrow> ('r \<Rightarrow> int) \<Rightarrow> ('r \<Rightarrow> string option)
     \<Rightarrow> ('w, 'r) provider_state \<Rightarrow> query \<Rightarrow> 'w io \<Rightarrow> 'w outcome" where
  "semantic_scholar_search parse_paper citation_count author_id self query io =
     (case client self of
        None \<Rightarrow> \<lparr>yielded = [], raised = Some not_initialized, io_after = io\<rparr>
      | Some c \<Rightarrow>
          if has_fulltext query then
            \<lparr>yielded = [], raised = Some missing_max_results, io_after = io\<rparr>
          else if truthy_str (extract_author_only query) then
            search_by_author parse_paper citation_count author_id self
              (the (extract_author_only query)) io
          else
            (let author_filter = extract_author_filter query;
                 title_filter = extract_title_filter query;
                 out = search_api parse_paper self query io
             in out\<lparr>yielded := filter (passes_client_filters author_filter title_filter)
                                  (yielded out)\<rparr>))"

text \<open>
  The call \<open>provider.search(query)\<close> or \<open>provider.search(query, max_results)\<close> on a
  \<open>SemanticScholar\<close>, consumed to its end: \<open>max_results\<close> is \<open>None\<close> when the call passes the
  query alone. \<open>Provider.search\<close> declares the second argument and \<open>fetch_one\<close> of the
  orchestrator passes it.
\<close>

definition semantic_scholar_search_call ::
  "('r \<Rightarrow> paper option) \<Rightarrow> ('r \<Rightarrow> int) \<Rightarrow> ('r \<Rightarrow> string option)
     \<Rightarrow> ('w, 'r) provider_state \<Rightarrow> query \<Rightarrow> int option \<Rightarrow> 'w io \<Rightarrow> 'w outcome" where
  "semantic_scholar_search_call parse_paper citation_count author_id self query max_results io =
     (case max_results of
        None \<Rightarrow> semantic_scholar_search parse_paper citation_count author_id self query io
      | Some n \<Rightarrow> \<lparr>yielded = [], raised = Some too_many_positional, io_after = io\<rparr>)"

section \<open>Pagination as the specification words it\<close>

text \<open>
  The three conditions the specification gives for the end of pagination, after a page
  has brought the number of records fetched to \<open>fetched\<close>: the page is short, the cap is
  reached, or the caller's \<open>max_results\<close> is satisfied.
\<close>

definition spec_page_stops :: "int \<Rightarrow> nat \<Rightarrow> 'r http_response \<Rightarrow> bool" where
  "spec_page_stops max_results fetched data =
     (length (page_results data) < PAGE_SIZE
      \<or> fetched \<ge> MAX_TOTAL_RESULTS
      \<or> int fetched \<ge> max_results)"

text \<open>
  The condition that ends the loop of \<open>fetch_pages\<close> after the page requested at \<open>offset\<close>:
  the next offset reaches the cap or the total the page reports, or the page is short.
\<close>

definition page_stops :: "nat \<Rightarrow> 'r http_response \<Rightarrow> bool" where
  "page_stops offset data =
     (offset + PAGE_SIZE \<ge> MAX_TOTAL_RESULTS
      \<or> int (offset + PAGE_SIZE) \<ge> page_total data
      \<or> length (page_results data) < PAGE_SIZE)"

subsection \<open>Example networks\<close>

text \<open>A service that answers every request with a full page and reports a fixed total.\<close>

definition full_pages :: "int \<Rightarrow> (unit, nat) http_client" where
  "full_pages reported_total =
     (\<lambda>req w. (Inr \<lparr>status_code = 200, body_items = Some (replicate 100 0),
                     body_total = Some reported_total\<rparr>, w))"

definition fresh_io :: "unit io" where
  "fresh_io = \<lparr>world = (), requests = [], sleeps = [], logged = []\<rparr>"

text \<open>A network with nothing to return, providers outside and inside their context.\<close>

definition idle_network :: "(unit, nat) http_client" where
  "idle_network = (\<lambda>req w. (Inr \<lparr>status_code = 200, body_items = Some [], body_total = Some 0\<rparr>, w))"

definition closed_provider :: "(unit, nat) provider_state" where
  "closed_provider = aexit (aenter idle_network (provider_init (Some ''key'') None))"

definition closed_openalex :: "(unit, nat) openalex" where
  "closed_openalex = \<lparr>api_key = None, client = None, mailto = Some ''me@example.org''\<rparr>"

definition empty_fulltext_query :: query where
  "empty_fulltext_query = FieldQ ''fulltext'' []"

definition fulltext_only_query :: query where
  "fulltext_only_query = Or (FieldQ ''fulltext'' ''attention'') (NotQ (FieldQ ''fulltext'' ''lstm''))"

definition citations_only_query :: query where
  "citations_only_query = CitationRange (Some 10) None"

definition open_provider :: "(unit, nat) provider_state" where
  "open_provider = aenter (full_pages 250) (provider_init None None)"

definition full_page :: "int \<Rightarrow> nat http_response" where
  "full_page reported_total =
     \<lparr>status_code = 200, body_items = Some (replicate 100 0), body_total = Some reported_total\<rparr>"

definition attention_params :: "(string \<times> string) list" where
  "attention_params = page_params ''attention'' None None None"

section \<open>Streaming search: scimesh/search.py\<close>

text \<open>
  \<open>_search_stream\<close> starts one task per provider and then runs the consumer loop of the
  generator; all of them run on one event loop and share the queue and the counter
  \<open>active_tasks\<close>. The queue is unbounded, so \<open>queue.put\<close> never suspends, and a task
  can be suspended only inside \<open>provider.search\<close>. The model gives a task one step per paper
  and one step for the end of its search with the \<open>except\<close> and \<open>finally\<close> blocks; a run of
  the code in which a provider hands over several papers without suspending is a run of
  the model that takes these steps one after the other.

  An item of the queue is a paper, an exception or \<open>None\<close>.
\<close>

datatype queue_item = PaperItem paper | ExceptionItem py_exception | NoneItem

text \<open>
  A task is running, with the papers its search has still to yield and the exception the
  search raises after them, if any, or it has finished.
\<close>

datatype task = Running "paper list" "py_exception option" | Finished

datatype stream_end = Ended | Raised py_exception

text \<open>
  The state of a streaming search: the tasks with the names of their providers, the
  queue, the counter, the papers the generator has yielded to its caller, how the
  generator has ended, if it has, and the warnings issued.
\<close>

record stream_state =
  tasks :: "(string \<times> task) list"
  queue :: "queue_item list"
  active_tasks :: int
  observed :: "paper list"
  stream_end :: "stream_end option"
  stream_warnings :: "string list"

definition start_task :: "query \<Rightarrow> int \<Rightarrow> provider \<Rightarrow> string \<times> task" where
  "start_task query max_results provider =
     (case run_search provider query max_results of
        (found, err) \<Rightarrow> (provider_name provider, Running found err))"

definition stream_init :: "query \<Rightarrow> provider list \<Rightarrow> int \<Rightarrow> stream_state" where
  "stream_init query providers max_results =
     \<lparr>tasks = map (start_task query max_results) providers,
      queue = [],
      active_tasks = int (length providers),
      observed = [],
      stream_end = None,
      stream_warnings = []\<rparr>"

text \<open>The \<open>except\<close> block and the \<open>finally\<close> block of \<open>fetch_one\<close>.\<close>

definition except_block :: "on_error \<Rightarrow> string \<Rightarrow> py_exception \<Rightarrow> stream_state \<Rightarrow> stream_state" where
  "except_block on_error pname e s =
     (if on_error = Fail then s\<lparr>queue := queue s @ [ExceptionItem e]\<rparr>
      else if on_error = Warn then
        s\<lparr>stream_warnings := stream_warnings s @ [failed_message pname e]\<rparr>
      else s)"

definition finally_block :: "stream_state \<Rightarrow> stream_state" where
  "finally_block s =
     (let n = active_tasks s - 1
      in s\<lparr>active_tasks := n, queue := (if n = 0 then queue s @ [NoneItem] else queue s)\<rparr>)"

text \<open>
  One step of \<open>fetch_one\<close> for the provider \<open>pname\<close>: the next paper is put on the queue, or
  the search is over, normally or with an exception. A finished task has no step.
\<close>

fun fetch_one_step ::
  "on_error \<Rightarrow> string \<Rightarrow> task \<Rightarrow> stream_state \<Rightarrow> (task \<times> stream_state) option" where
  "fetch_one_step on_error pname Finished s = None"
| "fetch_one_step on_error pname (Running (p # ps) err) s =
     Some (Running ps err, s\<lparr>queue := queue s @ [PaperItem p]\<rparr>)"
| "fetch_one_step on_error pname (Running [] None) s = Some (Finished, finally_block s)"
| "fetch_one_step on_error pname (Running [] (Some e)) s =
     Some (Finished, finally_block (except_block on_error pname e s))"

definition task_step :: "on_error \<Rightarrow> stream_state \<Rightarrow> nat \<Rightarrow> stream_state option" where
  "task_step on_error s i =
     (if i < length (tasks s) then
        (case fetch_one_step on_error (fst (tasks s ! i)) (snd (tasks s ! i)) s of
           None \<Rightarrow> None
         | Some (t, s1) \<Rightarrow> Some (s1\<lparr>tasks := (tasks s)[i := (fst (tasks s ! i), t)]\<rparr>))
      else None)"

text \<open>
  One turn of the \<open>while True\<close> loop of the generator. It has no step once the generator
  has ended, and none while the queue is empty: \<open>queue.get\<close> waits.
\<close>

definition consumer_step :: "stream_state \<Rightarrow> stream_state option" where
  "consumer_step s =
     (case stream_end s of
        Some ended \<Rightarrow> None
      | None \<Rightarrow>
          (case queue s of
             [] \<Rightarrow> None
           | NoneItem # rest \<Rightarrow> Some (s\<lparr>queue := rest, stream_end := Some Ended\<rparr>)
           | ExceptionItem e # rest \<Rightarrow> Some (s\<lparr>queue := rest, stream_end := Some (Raised e)\<rparr>)
           | PaperItem p # rest \<Rightarrow> Some (s\<lparr>queue := rest, observed := observed s @ [p]\<rparr>)))"

text \<open>
  The states the event loop can move to from \<open>s\<close>: any task that can step may be the next
  to run, and so may the consumer.
\<close>

definition successors :: "on_error \<Rightarrow> stream_state \<Rightarrow> stream_state list" where
  "successors on_error s =
     List.map_filter (task_step on_error s) [0..<length (tasks s)]
     @ (case consumer_step s of None \<Rightarrow> [] | Some s1 \<Rightarrow> [s1])"

definition stream_step :: "on_error \<Rightarrow> stream_state \<Rightarrow> stream_state \<Rightarrow> bool" where
  "stream_step on_error s s1 = (s1 \<in> set (successors on_error s))"

text \<open>
  A run under a given schedule: \<open>Some i\<close> lets task \<open>i\<close> take its next step, \<open>None\<close> lets the
  consumer take one. The result is \<open>None\<close> when the schedule asks for a step that is not
  there.
\<close>

fun run_schedule :: "on_error \<Rightarrow> nat option list \<Rightarrow> stream_state \<Rightarrow> stream_state option" where
  "run_schedule on_error [] s = Some s"
| "run_schedule on_error (Some i # schedule) s =
     (case task_step on_error s i of
        None \<Rightarrow> None
      | Some s1 \<Rightarrow> run_schedule on_error schedule s1)"
| "run_schedule on_error (None # schedule) s =
     (case consumer_step s of
        None \<Rightarrow> None
      | Some s1 \<Rightarrow> run_schedule on_error schedule s1)"

subsection \<open>What is left to do, and what holds along a run of two providers\<close>

text \<open>
  The steps a state still allows at most: two per paper not yet put on the queue, three
  for the end of a task, one per item on the queue.
\<close>

fun task_work :: "task \<Rightarrow> nat" where
  "task_work Finished = 0"
| "task_work (Running ps err) = 2 * length ps + 3"

definition work_left :: "stream_state \<Rightarrow> nat" where
  "work_left s = sum_list (map (\<lambda>t. task_work (snd t)) (tasks s)) + length (queue s)"

fun remaining :: "task \<Rightarrow> paper list" where
  "remaining Finished = []"
| "remaining (Running ps err) = ps"

fun no_failure :: "task \<Rightarrow> bool" where
  "no_failure Finished = True"
| "no_failure (Running ps err) = (err = None)"

fun queue_papers :: "queue_item list \<Rightarrow> paper list" where
  "queue_papers [] = []"
| "queue_papers (PaperItem p # q) = p # queue_papers q"
| "queue_papers (x # q) = queue_papers q"

fun papers_only :: "queue_item list \<Rightarrow> bool" where
  "papers_only [] = True"
| "papers_only (PaperItem p # q) = papers_only q"
| "papers_only (x # q) = False"

text \<open>
  The invariant of a run of two providers that do not fail and yield \<open>xs\<close> and \<open>ys\<close>: the
  papers yielded, then those on the queue, then any interleaving of those still to come,
  interleave \<open>xs\<close> and \<open>ys\<close>; the counter counts the running tasks; \<open>None\<close> is on the queue,
  as its last item, or has been taken from it, exactly when both tasks have finished.
\<close>

definition stream_inv :: "paper list \<Rightarrow> paper list \<Rightarrow> stream_state \<Rightarrow> bool" where
  "stream_inv xs ys s =
     (\<exists>nA tA nB tB.
        tasks s = [(nA, tA), (nB, tB)] \<and> no_failure tA \<and> no_failure tB \<and>
        (\<forall>zs \<in> shuffles (remaining tA) (remaining tB).
           observed s @ queue_papers (queue s) @ zs \<in> shuffles xs ys) \<and>
        active_tasks s = (if tA = Finished then 0 else 1) + (if tB = Finished then 0 else 1) \<and>
        (if tA = Finished \<and> tB = Finished then
           (stream_end s = None \<and> (\<exists>q. queue s = q @ [NoneItem] \<and> papers_only q))
           \<or> (stream_end s = Some Ended \<and> queue s = [])
         else stream_end s = None \<and> papers_only (queue s)))"

subsection \<open>Example stream\<close>

definition arxiv_three_papers :: provider where
  "arxiv_three_papers =
     \<lparr>provider_name = ''arxiv'',
      run_search = (\<lambda>q n. ([attention_arxiv,
                             example_paper ''Deep Residual Learning'' 2015 ''arxiv'' None,
                             example_paper ''Adam'' 2014 ''arxiv'' None], None))\<rparr>"

text \<open>
  A schedule for the two example providers: the second provider runs to its end first,
  the consumer reads between the papers of the first.
\<close>

definition example_schedule :: "nat option list" where
  "example_schedule =
     [Some 1, Some 0, None, Some 1, Some 1, Some 0, None, None, Some 0, Some 0, None, None, None]"

definition example_stream_end :: stream_state where
  "example_stream_end =
     \<lparr>tasks = [(''arxiv'', Finished), (''openalex'', Finished)],
      queue = [],
      active_tasks = 0,
      observed = [attention_openalex, attention_arxiv, attention_empty_doi,
                  example_paper ''Deep Residual Learning'' 2015 ''arxiv'' None,
                  example_paper ''Adam'' 2014 ''arxiv'' None],
      stream_end = Some Ended,
      stream_warnings = []\<rparr>"

section \<open>Paper identity\<close>

lemma lower_attention:
  "lower ''Attention Is All You Need'' = ''attention is all you need''"
  "lower ''ATTENTION IS ALL YOU NEED'' = ''attention is all you need''"
  "lower ''Attention is All you Need'' = ''attention is all you need''"
  by (simp_all add: lower_def lower_char_def)

text \<open>
  C1. Two papers that both carry a non-empty DOI are equal exactly when the DOIs are the
  same string, whatever their titles and years; two papers that both lack a DOI (absent
  or empty) are equal exactly when their lowercased titles and their years agree.
\<close>

theorem paper_eq_identity_rule:
  "(truthy_str (doi p) \<and> truthy_str (doi q) \<longrightarrow> paper_eq p q = (doi p = doi q)) \<and>
   (\<not> truthy_str (doi p) \<and> \<not> truthy_str (doi q) \<longrightarrow>
      paper_eq p q = (lower (title p) = lower (title q) \<and> year p = year q))"
  by (simp add: paper_eq_def)

theorem paper_eq_identity_rule_witness:
  "truthy_str (doi attention_arxiv) \<and> truthy_str (doi attention_openalex) \<and>
   title attention_arxiv \<noteq> title attention_openalex \<and>
   year attention_arxiv \<noteq> year attention_openalex \<and>
   paper_eq attention_arxiv attention_openalex \<and>
   \<not> truthy_str (doi attention_scopus_no_doi) \<and> \<not> truthy_str (doi attention_empty_doi) \<and>
   paper_eq attention_scopus_no_doi attention_empty_doi"
  using paper_eq_identity_rule [of attention_arxiv attention_openalex]
    paper_eq_identity_rule [of attention_scopus_no_doi attention_empty_doi]
  by (simp add: attention_arxiv_def attention_openalex_def attention_scopus_no_doi_def
      attention_empty_doi_def example_paper_def truthy_str_def lower_attention)

text \<open>
  C2. Equal papers must hash alike. A paper with a DOI and a paper without one that agree
  on lowercased title and year are equal, yet the first hashes its DOI string and the
  second the tuple of lowercased title and year.
\<close>

theorem paper_eq_hash_mismatch:
  "paper_eq attention_arxiv attention_scopus_no_doi \<and>
   paper_hash h attention_arxiv = h (HStr ''10.48550/arXiv.1706.03762'') \<and>
   paper_hash h attention_scopus_no_doi = h (HTuple ''attention is all you need'' 2017)"
  by (simp add: paper_eq_def paper_hash_def attention_arxiv_def attention_scopus_no_doi_def
      example_paper_def truthy_str_def lower_attention)

section \<open>Formatting of integers\<close>

lemma digit_char_inj: "a < 10 \<Longrightarrow> b < 10 \<Longrightarrow> digit_char a = digit_char b \<Longrightarrow> a = b"
proof -
  assume a: "a < 10" and b: "b < 10" and e: "digit_char a = digit_char b"
  have d: "distinct ''0123456789''" by simp
  have "length ''0123456789'' = 10" by simp
  with a b e d show ?thesis
    unfolding digit_char_def by (metis nth_eq_iff_index_eq)
qed

lemma digit_char_digit: "d < 10 \<Longrightarrow> digit_char d \<in> set ''0123456789''"
  unfolding digit_char_def by (intro nth_mem) simp

lemma str_nat_not_Nil: "str_nat n \<noteq> []"
  by (subst str_nat.simps) simp

lemma str_nat_digits: "set (str_nat n) \<subseteq> set ''0123456789''"
proof (induction n rule: str_nat.induct)
  case (1 n)
  show ?case
  proof (cases "n < 10")
    case True
    then show ?thesis
      using digit_char_digit [of n] by (subst str_nat.simps) simp
  next
    case False
    have "digit_char (n mod 10) \<in> set ''0123456789''" by (rule digit_char_digit) simp
    with False 1 show ?thesis by (subst str_nat.simps) simp
  qed
qed

lemma colon_notin_str_nat: "CHR '':'' \<notin> set (str_nat n)"
  using str_nat_digits [of n] by auto

lemma minus_notin_str_nat: "CHR ''-'' \<notin> set (str_nat n)"
  using str_nat_digits [of n] by auto

lemma str_nat_inj: "str_nat n = str_nat m \<Longrightarrow> n = m"
proof (induction n arbitrary: m rule: str_nat.induct)
  case (1 n)
  show ?case
  proof (cases "n < 10")
    case n: True
    show ?thesis
    proof (cases "m < 10")
      case True
      with n 1(2) show ?thesis
        by (simp add: str_nat.simps [of n] str_nat.simps [of m] digit_char_inj)
    next
      case False
      with n 1(2) have "[digit_char n] = str_nat (m div 10) @ [digit_char (m mod 10)]"
        by (simp add: str_nat.simps [of n] str_nat.simps [of m])
      then show ?thesis using str_nat_not_Nil [of "m div 10"] by simp
    qed
  next
    case n: False
    show ?thesis
    proof (cases "m < 10")
      case True
      with n 1(2) have "str_nat (n div 10) @ [digit_char (n mod 10)] = [digit_char m]"
        by (simp add: str_nat.simps [of n] str_nat.simps [of m])
      then show ?thesis using str_nat_not_Nil [of "n div 10"] by simp
    next
      case False
      with n 1(2) have e: "str_nat (n div 10) = str_nat (m div 10)"
        and d: "digit_char (n mod 10) = digit_char (m mod 10)"
        by (simp_all add: str_nat.simps [of n] str_nat.simps [of m])
      from 1(1) [OF n e] have q: "n div 10 = m div 10" .
      have "n mod 10 = m mod 10" using d by (intro digit_char_inj) simp_all
      with q show ?thesis by (metis div_mult_mod_eq)
    qed
  qed
qed

lemma str_int_inj: "str_int i = str_int j \<Longrightarrow> i = j"
proof -
  assume e: "str_int i = str_int j"
  have hd_nat: "\<And>n. hd (str_nat n) \<noteq> CHR ''-''"
    using minus_notin_str_nat str_nat_not_Nil by (metis hd_in_set)
  show ?thesis
  proof (cases "i < 0")
    case i: True
    show ?thesis
    proof (cases "j < 0")
      case True
      with i e have "str_nat (nat (- i)) = str_nat (nat (- j))" by (simp add: str_int_def)
      then have "nat (- i) = nat (- j)" by (rule str_nat_inj)
      with i True show ?thesis by simp
    next
      case False
      with i e have "CHR ''-'' # str_nat (nat (- i)) = str_nat (nat j)" by (simp add: str_int_def)
      then show ?thesis using hd_nat [of "nat j"] by (metis list.sel(1))
    qed
  next
    case i: False
    show ?thesis
    proof (cases "j < 0")
      case True
      with i e have "str_nat (nat i) = CHR ''-'' # str_nat (nat (- j))" by (simp add: str_int_def)
      then show ?thesis using hd_nat [of "nat i"] by (metis list.sel(1))
    next
      case False
      with i e have "str_nat (nat i) = str_nat (nat j)" by (simp add: str_int_def)
      then have "nat i = nat j" by (rule str_nat_inj)
      with i False show ?thesis by simp
    qed
  qed
qed

lemma colon_notin_str_int: "CHR '':'' \<notin> set (str_int i)"
  by (simp add: str_int_def colon_notin_str_nat)

lemma split_at_last_sep:
  "c \<notin> set s \<Longrightarrow> c \<notin> set t \<Longrightarrow> a @ c # s = b @ c # t \<Longrightarrow> a = b \<and> s = t"
proof (induction a arbitrary: b)
  case Nil
  then show ?case by (cases b) auto
next
  case (Cons x a)
  then show ?case by (cases b) auto
qed

lemma title_year_key_inj:
  "a @ CHR '':'' # str_int y1 = b @ CHR '':'' # str_int y2 \<longleftrightarrow> a = b \<and> y1 = y2"
  using split_at_last_sep [of "CHR '':''" "str_int y1" "str_int y2" a b]
    colon_notin_str_int str_int_inj by auto

section \<open>Deduplication\<close>

lemma dedupe_loop_index:
  "dedupe_loop ps seen unique =
     unique @ map (\<lambda>i. ps ! i)
       (filter (\<lambda>i. dedupe_key (ps ! i) \<notin> seen \<and> (\<forall>j<i. dedupe_key (ps ! j) \<noteq> dedupe_key (ps ! i)))
          [0..<length ps])"
proof (induction ps arbitrary: seen unique)
  case Nil
  show ?case by simp
next
  case (Cons x ps)
  have up: "[0..<length (x # ps)] = 0 # map Suc [0..<length ps]"
    by (simp add: upt_conv_Cons map_Suc_upt del: upt_Suc)
  have all_suc: "\<And>P i. (\<forall>j<Suc i. P j) = (P 0 \<and> (\<forall>j<i. P (Suc j)))"
    by (metis less_Suc_eq_0_disj)
  show ?case
  proof (cases "dedupe_key x \<in> seen")
    case True
    have "(\<lambda>i. dedupe_key (ps ! i) \<notin> seen \<and> dedupe_key x \<noteq> dedupe_key (ps ! i) \<and>
               (\<forall>j<i. dedupe_key (ps ! j) \<noteq> dedupe_key (ps ! i)))
          = (\<lambda>i. dedupe_key (ps ! i) \<notin> seen \<and> (\<forall>j<i. dedupe_key (ps ! j) \<noteq> dedupe_key (ps ! i)))"
      using True by auto
    with True show ?thesis
      unfolding up by (simp add: Cons.IH filter_map o_def all_suc)
  next
    case False
    have "(\<lambda>i. dedupe_key (ps ! i) \<notin> seen \<and> dedupe_key x \<noteq> dedupe_key (ps ! i) \<and>
               (\<forall>j<i. dedupe_key (ps ! j) \<noteq> dedupe_key (ps ! i)))
          = (\<lambda>i. dedupe_key (ps ! i) \<noteq> dedupe_key x \<and> dedupe_key (ps ! i) \<notin> seen \<and>
               (\<forall>j<i. dedupe_key (ps ! j) \<noteq> dedupe_key (ps ! i)))"
      by auto
    with False show ?thesis
      unfolding up by (simp add: Cons.IH filter_map o_def all_suc)
  qed
qed

lemma same_key_paper_eq:
  assumes "truthy_str (doi p) = truthy_str (doi q)"
  shows "same_key p q = paper_eq p q"
proof (cases "truthy_str (doi p)")
  case True
  with assms have "truthy_str (doi q)" by simp
  with True show ?thesis
    by (auto simp: same_key_def dedupe_key_def paper_eq_def truthy_str_def split: option.splits)
next
  case False
  with assms have "\<not> truthy_str (doi q)" by simp
  with False show ?thesis
    by (auto simp: same_key_def dedupe_key_def paper_eq_def truthy_str_def title_year_key_inj
        split: option.splits)
qed

lemma first_occurrences_cong:
  assumes "\<And>x y. x \<in> set xs \<Longrightarrow> y \<in> set xs \<Longrightarrow> same x y = same' x y"
  shows "first_occurrences same xs = first_occurrences same' xs"
proof -
  have "filter (\<lambda>i. \<forall>j<i. \<not> same (xs ! j) (xs ! i)) [0..<length xs]
      = filter (\<lambda>i. \<forall>j<i. \<not> same' (xs ! j) (xs ! i)) [0..<length xs]"
  proof (rule filter_cong [OF refl])
    fix i assume "i \<in> set [0..<length xs]"
    then have i: "i < length xs" by simp
    show "(\<forall>j<i. \<not> same (xs ! j) (xs ! i)) = (\<forall>j<i. \<not> same' (xs ! j) (xs ! i))"
    proof (intro all_cong1 imp_cong refl)
      fix j assume "j < i"
      with i have "xs ! j \<in> set xs" "xs ! i \<in> set xs" by simp_all
      then show "(\<not> same (xs ! j) (xs ! i)) = (\<not> same' (xs ! j) (xs ! i))"
        using assms by simp
    qed
  qed
  then show ?thesis by (simp add: first_occurrences_def)
qed

lemma dedupe_papers_by_key: "papers (dedupe r) = first_occurrences same_key (papers r)"
  by (simp add: dedupe_def dedupe_loop_index first_occurrences_def same_key_def)

text \<open>
  C3, amended: \<open>dedupe\<close> keeps exactly the papers whose key (the DOI when non-empty, else
  lowercased title, a colon and the year) differs from the key of every earlier paper, in
  their order, and passes \<open>errors\<close> and \<open>total_by_provider\<close> through. When the papers all
  carry a DOI, or all lack one, these are exactly the papers that are not the same logical
  paper as an earlier one.
\<close>

theorem dedupe_first_occurrences_by_key:
  "papers (dedupe r) = first_occurrences same_key (papers r) \<and>
   errors (dedupe r) = errors r \<and>
   total_by_provider (dedupe r) = total_by_provider r \<and>
   (doi_uniform (papers r) \<longrightarrow> papers (dedupe r) = first_occurrences paper_eq (papers r))"
proof (intro conjI impI)
  show "papers (dedupe r) = first_occurrences same_key (papers r)"
    by (rule dedupe_papers_by_key)
  show "errors (dedupe r) = errors r" by (simp add: dedupe_def)
  show "total_by_provider (dedupe r) = total_by_provider r" by (simp add: dedupe_def)
  assume u: "doi_uniform (papers r)"
  have "first_occurrences same_key (papers r) = first_occurrences paper_eq (papers r)"
  proof (rule first_occurrences_cong)
    fix x y assume "x \<in> set (papers r)" "y \<in> set (papers r)"
    with u have "truthy_str (doi x) = truthy_str (doi y)"
      unfolding doi_uniform_def by blast
    then show "same_key x y = paper_eq x y" by (rule same_key_paper_eq)
  qed
  then show "papers (dedupe r) = first_occurrences paper_eq (papers r)"
    by (simp add: dedupe_papers_by_key)
qed

lemma str_int_2017: "str_int 2017 = ''2017''"
  by (simp add: str_int_def str_nat.simps digit_char_def)

lemma all_less_numeral: "(\<forall>j<Suc n. P j) = (P n \<and> (\<forall>j<n. P j))"
  by (auto simp: less_Suc_eq)

text \<open>
  C3, as stated: \<open>dedupe\<close> keeps the papers that are not the same logical paper, by the
  identity rule of \<open>Paper.__eq__\<close>, as an earlier one. It fails where a paper with a DOI
  is followed by a paper without one that has the same title and year: the rule makes
  them one paper, the keys differ and both are kept.
\<close>

theorem dedupe_identity_rule_counterexample:
  "papers (dedupe mixed_doi_result) = [attention_arxiv, attention_scopus_no_doi] \<and>
   first_occurrences paper_eq (papers mixed_doi_result) = [attention_arxiv]"
  by (simp add: dedupe_def mixed_doi_result_def dedupe_key_def first_occurrences_def paper_eq_def
      attention_arxiv_def attention_scopus_no_doi_def example_paper_def truthy_str_def
      lower_attention str_int_2017 upt_rec [of 0] upt_rec [of 1] all_less_numeral
      numeral_2_eq_2)

theorem dedupe_first_occurrences_by_key_witness:
  "doi_uniform (papers no_doi_result) \<and>
   papers (dedupe no_doi_result) = first_occurrences paper_eq (papers no_doi_result) \<and>
   papers (dedupe no_doi_result) = [attention_scopus_no_doi]"
proof -
  have u: "doi_uniform (papers no_doi_result)"
    by (simp add: no_doi_result_def doi_uniform_def attention_empty_doi_def
        attention_scopus_no_doi_def example_paper_def truthy_str_def)
  have e: "papers (dedupe no_doi_result) = [attention_scopus_no_doi]"
    by (simp add: dedupe_def no_doi_result_def dedupe_key_def attention_empty_doi_def
        attention_scopus_no_doi_def example_paper_def lower_attention str_int_2017)
  from u dedupe_first_occurrences_by_key [of no_doi_result] e show ?thesis by blast
qed

section \<open>Batch search\<close>

text \<open>
  C4. With \<open>on_error = warn\<close> and providers \<open>[A, B]\<close>, where A's search raises and B's
  succeeds, the call returns a result (no exception): its errors map A's name to A's
  exception and nothing else, its papers are B's papers (deduplicated when \<open>dedupe\<close> is
  set), \<open>total_by_provider\<close> has the one entry for B, and one warning naming A was issued.
\<close>

theorem batch_warn_first_provider_fails:
  assumes "run_search A query max_results = (ysA, Some eA)"
    and "run_search B query max_results = (ysB, None)"
  shows "search_batch query [A, B] max_results Warn dedupe_flag =
           Inr (let result = \<lparr>papers = ysB, errors = [provider_name A \<mapsto> eA],
                              total_by_provider = [provider_name B \<mapsto> length ysB]\<rparr>
                in if dedupe_flag then dedupe result else result,
                [failed_message (provider_name A) eA])"
  using assms by (simp add: search_batch_def batch_fetch_one_def Let_def)

theorem batch_warn_first_provider_fails_witness:
  "search_batch title_query [scopus_without_key, openalex_two_papers] 100 Warn False =
     Inr (\<lparr>papers = [attention_openalex, attention_empty_doi],
           errors = [''scopus'' \<mapsto> PyException ''HTTPStatusError'' ''401 Unauthorized''],
           total_by_provider = [''openalex'' \<mapsto> 2]\<rparr>,
          [''Provider scopus failed: 401 Unauthorized''])"
  using batch_warn_first_provider_fails [of scopus_without_key title_query 100
      "[attention_scopus_no_doi]" "PyException ''HTTPStatusError'' ''401 Unauthorized''"
      openalex_two_papers "[attention_openalex, attention_empty_doi]" False]
  by (simp add: scopus_without_key_def openalex_two_papers_def failed_message_def
      numeral_2_eq_2)

lemma batch_loop_fail_prefix:
  assumes "\<forall>q\<in>set before. \<not> fails query max_results q"
    and "snd (run_search p query max_results) = Some e"
  shows "batch_loop Fail (map (batch_fetch_one query max_results) (before @ p # after)) st = Inl e"
  using assms
proof (induction before arbitrary: st)
  case Nil
  then show ?case
    by (cases "run_search p query max_results") (simp add: batch_fetch_one_def)
next
  case (Cons a before)
  from Cons.prems have "snd (run_search a query max_results) = None"
    by (simp add: fails_def)
  then have "batch_fetch_one query max_results a
      = (provider_name a, fst (run_search a query max_results), None)"
    by (cases "run_search a query max_results") (simp add: batch_fetch_one_def)
  with Cons show ?case by simp
qed

text \<open>
  C5. With \<open>on_error = fail\<close>, if any provider's search raises, the call raises the
  exception of the first failing provider in the provider list and returns no result,
  whatever the other providers found.
\<close>

theorem batch_fail_raises_first_error:
  assumes "\<exists>p\<in>set providers. fails query max_results p"
  shows "\<exists>before p after e. providers = before @ p # after \<and>
           (\<forall>q\<in>set before. \<not> fails query max_results q) \<and>
           snd (run_search p query max_results) = Some e \<and>
           search_batch query providers max_results Fail dedupe_flag = Inl e"
proof -
  from split_list_first_prop [OF assms] obtain before p after where
    sp: "providers = before @ p # after" and f: "fails query max_results p"
    and b: "\<forall>q\<in>set before. \<not> fails query max_results q"
    by blast
  from f obtain e where e: "snd (run_search p query max_results) = Some e"
    by (auto simp: fails_def)
  from batch_loop_fail_prefix [OF b e]
  have "search_batch query providers max_results Fail dedupe_flag = Inl e"
    by (simp add: search_batch_def sp)
  with sp b e show ?thesis by blast
qed

theorem batch_fail_raises_first_error_witness:
  "(\<exists>p\<in>set [openalex_two_papers, scopus_without_key]. fails title_query 100 p) \<and>
   search_batch title_query [openalex_two_papers, scopus_without_key] 100 Fail True =
     Inl (PyException ''HTTPStatusError'' ''401 Unauthorized'')"
proof -
  have f: "\<exists>p\<in>set [openalex_two_papers, scopus_without_key]. fails title_query 100 p"
    by (simp add: fails_def scopus_without_key_def)
  from batch_fail_raises_first_error [OF f, of True]
  obtain e where "search_batch title_query [openalex_two_papers, scopus_without_key] 100 Fail True
      = Inl e"
    by blast
  moreover have "search_batch title_query [openalex_two_papers, scopus_without_key] 100 Fail True
      = Inl (PyException ''HTTPStatusError'' ''401 Unauthorized'')"
    by (simp add: search_batch_def batch_fetch_one_def scopus_without_key_def
        openalex_two_papers_def)
  ultimately show ?thesis using f by simp
qed

section \<open>OpenAlex query translation\<close>

lemma collect_params_filters:
  "snd (collect_params q search_terms filters) = filters @ filter_clauses q"
  by (induction q arbitrary: search_terms filters) (simp_all add: case_prod_beta)

lemma filter_clauses_search_only: "search_terms_only q \<Longrightarrow> filter_clauses q = []"
  by (induction q) auto

text \<open>
  C7. In the OpenAlex translator a \<open>Not\<close> node leaves the search terms as they were and
  appends the negation of each filter clause (author, DOI, year) of its operand and of
  nothing else; when the operand is built from search-term leaves only, the node
  contributes nothing to either list. The translation is total: no case raises.
\<close>

theorem collect_params_Not_negates_filters_only:
  "collect_params (NotQ q) search_terms filters =
     (search_terms, filters @ map (\<lambda>f. ''!'' @ f) (filter_clauses q)) \<and>
   (search_terms_only q \<longrightarrow> collect_params (NotQ q) search_terms filters = (search_terms, filters))"
proof -
  have "snd (collect_params q [] []) = filter_clauses q"
    using collect_params_filters [of q "[]" "[]"] by simp
  then have a: "collect_params (NotQ q) search_terms filters =
     (search_terms, filters @ map (\<lambda>f. ''!'' @ f) (filter_clauses q))"
    by (simp add: case_prod_beta)
  with filter_clauses_search_only [of q] show ?thesis by simp
qed

theorem collect_params_Not_negates_filters_only_witness:
  "search_terms_only negated_terms_query \<and>
   collect_params (NotQ negated_terms_query) [''bert''] [''doi:10.1/x''] =
     ([''bert''], [''doi:10.1/x'']) \<and>
   build_params (And (FieldQ ''title'' ''bert'')
       (NotQ (And (FieldQ ''abstract'' ''gpt'') (FieldQ ''author'' ''Smith'')))) =
     (''bert'', ''!raw_author_name.search:Smith'')"
proof -
  have s: "search_terms_only negated_terms_query"
    by (simp add: negated_terms_query_def)
  from s collect_params_Not_negates_filters_only
    [of negated_terms_query "[''bert'']" "[''doi:10.1/x'']"]
  have "collect_params (NotQ negated_terms_query) [''bert''] [''doi:10.1/x''] =
     ([''bert''], [''doi:10.1/x''])"
    by blast
  moreover have "build_params (And (FieldQ ''title'' ''bert'')
       (NotQ (And (FieldQ ''abstract'' ''gpt'') (FieldQ ''author'' ''Smith'')))) =
     (''bert'', ''!raw_author_name.search:Smith'')"
    by (simp add: build_params_def)
  ultimately show ?thesis using s by simp
qed

section \<open>Searching outside the context, and collapsed queries\<close>

text \<open>
  C10, as stated: outside the context every provider's search raises \<open>RuntimeError\<close>, for
  every query and \<open>max_results\<close>. It fails for Semantic Scholar: the call that passes
  \<open>max_results\<close>, as \<open>Provider.search\<close> declares it, raises \<open>TypeError\<close>.
\<close>

theorem search_outside_context_counterexample:
  "client closed_provider = None \<and>
   (\<exists>e. raised (semantic_scholar_search_call (\<lambda>r. None) (\<lambda>r. 0) (\<lambda>r. None)
                   closed_provider title_query (Some 100) fresh_io) = Some e \<and>
        exc_class e = ''TypeError'' \<and> exc_class e \<noteq> ''RuntimeError'')"
  by (simp add: closed_provider_def aexit_def aenter_def semantic_scholar_search_call_def
      too_many_positional_def)

text \<open>
  C10, amended. A provider is outside its context after \<open>__init__\<close> and after \<open>__aexit__\<close>:
  its client is \<open>None\<close>. Consuming a search in that state raises and leaves the world as it
  was, so no request is sent: OpenAlex and Scopus raise \<open>RuntimeError\<close> for every query
  and \<open>max_results\<close>; Semantic Scholar raises \<open>RuntimeError\<close> for every query when it is
  called with the query alone, and \<open>TypeError\<close> when the call passes \<open>max_results\<close>, in or
  out of the context.
\<close>

theorem search_outside_context_raises:
  "client (provider_init key from_env) = None \<and>
   client (aexit self) = None \<and>
   exc_class not_initialized = ''RuntimeError'' \<and>
   exc_class too_many_positional = ''TypeError'' \<and>
   (client oa = None \<longrightarrow>
      openalex_search parse_work oa query max_results io =
        \<lparr>yielded = [], raised = Some not_initialized, io_after = io\<rparr>) \<and>
   (client sc = None \<longrightarrow>
      scopus_search parse_entry sc query max_results io =
        \<lparr>yielded = [], raised = Some not_initialized, io_after = io\<rparr>) \<and>
   (client ss = None \<longrightarrow>
      semantic_scholar_search_call parse_paper citation_count author_id ss query None io =
        \<lparr>yielded = [], raised = Some not_initialized, io_after = io\<rparr>) \<and>
   semantic_scholar_search_call parse_paper citation_count author_id ss query (Some max_results) io =
     \<lparr>yielded = [], raised = Some too_many_positional, io_after = io\<rparr>"
  by (simp add: provider_init_def aexit_def not_initialized_def too_many_positional_def
      openalex_search_def scopus_search_def semantic_scholar_search_def
      semantic_scholar_search_call_def split: option.splits)

theorem search_outside_context_raises_witness:
  "client closed_provider = None \<and> client closed_openalex = None \<and>
   openalex_search (\<lambda>r. None) closed_openalex title_query 100 fresh_io =
     \<lparr>yielded = [], raised = Some not_initialized, io_after = fresh_io\<rparr> \<and>
   scopus_search (\<lambda>r. None) closed_provider title_query 100 fresh_io =
     \<lparr>yielded = [], raised = Some not_initialized, io_after = fresh_io\<rparr> \<and>
   semantic_scholar_search_call (\<lambda>r. None) (\<lambda>r. 0) (\<lambda>r. None) closed_provider title_query None
       fresh_io =
     \<lparr>yielded = [], raised = Some not_initialized, io_after = fresh_io\<rparr> \<and>
   semantic_scholar_search_call (\<lambda>r. None) (\<lambda>r. 0) (\<lambda>r. None) closed_provider title_query
       (Some 100) fresh_io =
     \<lparr>yielded = [], raised = Some too_many_positional, io_after = fresh_io\<rparr> \<and>
   requests fresh_io = []"
proof -
  have c: "client closed_provider = None"
    by (simp add: closed_provider_def aexit_def aenter_def)
  have o: "client closed_openalex = None"
    by (simp add: closed_openalex_def)
  have r: "requests fresh_io = []"
    by (simp add: fresh_io_def)
  from c o r search_outside_context_raises
    [where oa = closed_openalex and sc = closed_provider and ss = closed_provider
      and query = title_query and max_results = 100 and io = fresh_io
      and parse_work = "\<lambda>r. None" and parse_entry = "\<lambda>r. None" and parse_paper = "\<lambda>r. None"
      and citation_count = "\<lambda>r. 0" and author_id = "\<lambda>r. None"
      and key = None and from_env = None and self = closed_provider]
  show ?thesis by blast
qed

text \<open>
  C8, as stated: when removal collapses the query, the fulltext fallback logs a warning.
  It fails for a fulltext leaf with the empty string as its term: the fallback returns on
  the falsy term before it reaches the warning.
\<close>

theorem collapsed_query_counterexample:
  "remove_fulltext empty_fulltext_query = None \<and>
   fb_warnings (search_with_fulltext_filter (\<lambda>term limit. [''10.1/x''])
      (\<lambda>q n. ([attention_arxiv], None)) empty_fulltext_query 10) = []"
  by (simp add: empty_fulltext_query_def search_with_fulltext_filter_def truthy_str_def)

text \<open>
  C8, amended: when \<open>remove_fulltext\<close> gives \<open>None\<close>, the fulltext fallback yields nothing,
  never calls \<open>_search_api\<close>, and logs its warning exactly when the extracted term is
  non-empty; when \<open>remove_citation_range\<close> gives \<open>None\<close>, \<open>_search_api\<close> yields nothing and
  sends no request, and inside the provider's context it raises nothing.
\<close>

theorem collapsed_query_yields_nothing:
  "(remove_fulltext query = None \<longrightarrow>
      search_with_fulltext_filter index_search api query max_results =
        \<lparr>fb_yielded = [], fb_raised = None,
         fb_warnings = (if truthy_str (extract_fulltext_term query) then [fulltext_warning] else []),
         fb_api_calls = []\<rparr>) \<and>
   (remove_citation_range query = None \<longrightarrow>
      yielded (search_api parse_paper self query io) = [] \<and>
      io_after (search_api parse_paper self query io) = io \<and>
      (client self \<noteq> None \<longrightarrow> raised (search_api parse_paper self query io) = None))"
  by (simp add: search_with_fulltext_filter_def search_api_def Let_def split: option.splits)

theorem collapsed_query_yields_nothing_witness:
  "remove_fulltext fulltext_only_query = None \<and>
   search_with_fulltext_filter (\<lambda>term limit. [''10.1/x'']) (\<lambda>q n. ([attention_arxiv], None))
       fulltext_only_query 10 =
     \<lparr>fb_yielded = [], fb_raised = None, fb_warnings = [fulltext_warning], fb_api_calls = []\<rparr> \<and>
   remove_citation_range citations_only_query = None \<and>
   client open_provider \<noteq> None \<and>
   search_api (\<lambda>r. None) open_provider citations_only_query fresh_io =
     \<lparr>yielded = [], raised = None, io_after = fresh_io\<rparr>"
proof -
  have f: "remove_fulltext fulltext_only_query = None"
    by (simp add: fulltext_only_query_def collapse_def)
  have t: "truthy_str (extract_fulltext_term fulltext_only_query)"
    by (simp add: fulltext_only_query_def truthy_str_def)
  have c: "remove_citation_range citations_only_query = None"
    by (simp add: citations_only_query_def)
  have o: "client open_provider \<noteq> None"
    by (simp add: open_provider_def aenter_def)
  from collapsed_query_yields_nothing
    [where index_search = "\<lambda>term limit. [''10.1/x'']"
      and api = "\<lambda>q n. ([attention_arxiv], None)" and max_results = 10
      and query = fulltext_only_query and parse_paper = "\<lambda>r. None" and self = open_provider
      and io = fresh_io] f t
  have w: "search_with_fulltext_filter (\<lambda>term limit. [''10.1/x'']) (\<lambda>q n. ([attention_arxiv], None))
       fulltext_only_query 10 =
     \<lparr>fb_yielded = [], fb_raised = None, fb_warnings = [fulltext_warning], fb_api_calls = []\<rparr>"
    by simp
  from collapsed_query_yields_nothing
    [where query = citations_only_query and parse_paper = "\<lambda>r. None" and self = open_provider
      and io = fresh_io and index_search = "\<lambda>term limit. [''10.1/x'']"
      and api = "\<lambda>q n. ([attention_arxiv], None)" and max_results = 10] c o
  have "yielded (search_api (\<lambda>r. None) open_provider citations_only_query fresh_io) = []"
    and "io_after (search_api (\<lambda>r. None) open_provider citations_only_query fresh_io) = fresh_io"
    and "raised (search_api (\<lambda>r. None) open_provider citations_only_query fresh_io) = None"
    by blast+
  then have "search_api (\<lambda>r. None) open_provider citations_only_query fresh_io =
     \<lparr>yielded = [], raised = None, io_after = fresh_io\<rparr>"
    by (cases "search_api (\<lambda>r. None) open_provider citations_only_query fresh_io") simp
  with f c o w show ?thesis by simp
qed

section \<open>Pagination of Semantic Scholar\<close>

lemma fetch_attempts_not_None:
  "attempt < 3 \<Longrightarrow> fst (fetch_attempts c req attempt retry_delay io) \<noteq> Inr None"
proof (induction c req attempt retry_delay io rule: fetch_attempts.induct)
  case (1 c req attempt retry_delay io)
  obtain answer io1 where g: "client_get c req io = (answer, io1)"
    by (cases "client_get c req io")
  show ?case
  proof (cases answer)
    case (Inl e)
    with g 1(3) show ?thesis by (simp add: fetch_attempts.simps [of c req attempt])
  next
    case (Inr response)
    show ?thesis
    proof (cases "status_code response = 429 \<and> attempt < 3 - 1")
      case True
      with 1(1) [OF 1(3) g [symmetric] Inr] g Inr 1(3) show ?thesis
        by (simp add: fetch_attempts.simps [of c req attempt])
    next
      case False
      show ?thesis
      proof (cases "raise_for_status response")
        case None
        with False g Inr 1(3) show ?thesis
          by (auto simp add: fetch_attempts.simps [of c req attempt] Let_def)
      next
        case (Some e)
        show ?thesis
        proof (cases "attempt = 3 - 1")
          case True
          with Some False g Inr 1(3) show ?thesis
            by (simp add: fetch_attempts.simps [of c req 2] Let_def)
        next
          case na: False
          with 1(3) have lt: "attempt + 1 < 3" by simp
          from 1(2) [OF 1(3) g [symmetric] Inr False refl Some na lt]
          show ?thesis using Some False g Inr 1(3) na
            by (simp add: fetch_attempts.simps [of c req attempt] Let_def)
        qed
      qed
    qed
  qed
qed

lemma fetch_with_retry_not_None:
  "fetch_with_retry (Some c) req io \<noteq> (Inr None, io1)"
  using fetch_attempts_not_None [of 0 c req 1 io]
  by (auto simp: fetch_with_retry_def)

lemma fetch_pages_stops:
  assumes "fetch_pages (Some c) params key offset io = (pages, err, io1)"
    and "offset < MAX_TOTAL_RESULTS"
  shows "(\<forall>k. Suc k < length pages \<longrightarrow> \<not> page_stops (offset + k * PAGE_SIZE) (pages ! k)) \<and>
         (err = None \<longrightarrow>
            pages \<noteq> [] \<and> page_stops (offset + (length pages - 1) * PAGE_SIZE) (last pages))"
  using assms
proof (induction "Some c" params key offset io arbitrary: pages err io1 rule: fetch_pages.induct)
  case (1 params key offset io)
  obtain answer io2 where f: "fetch_with_retry (Some c) (page_request params key offset) io = (answer, io2)"
    by (cases "fetch_with_retry (Some c) (page_request params key offset) io")
  show ?case
  proof (cases answer)
    case (Inl e)
    with f 1(2,3) show ?thesis by (auto simp add: fetch_pages.simps [of _ params key offset])
  next
    case (Inr got)
    show ?thesis
    proof (cases got)
      case None
      with f Inr fetch_with_retry_not_None show ?thesis by metis
    next
      case (Some data)
      show ?thesis
      proof (cases "page_stops offset data")
        case True
        with f Inr Some 1(2,3) have "pages = [data]" "err = None"
          by (simp_all add: fetch_pages.simps [of _ params key offset] page_stops_def)
        with True show ?thesis by simp
      next
        case False
        then have cont: "\<not> (MAX_TOTAL_RESULTS \<le> offset + PAGE_SIZE
            \<or> page_total data \<le> int (offset + PAGE_SIZE)
            \<or> length (page_results data) < PAGE_SIZE)"
          by (simp add: page_stops_def)
        obtain rest err' io3 where r:
          "fetch_pages (Some c) params key (offset + PAGE_SIZE) io2 = (rest, err', io3)"
          by (cases "fetch_pages (Some c) params key (offset + PAGE_SIZE) io2") auto
        from cont have lt: "offset + PAGE_SIZE < MAX_TOTAL_RESULTS" by simp
        from f Inr Some cont r 1(2,3) have p: "pages = data # rest" and e: "err = err'"
          by (simp_all add: fetch_pages.simps [of _ params key offset])
        from 1(1) [OF 1(3) f [symmetric] Inr Some cont r lt]
        have ih1: "\<forall>k. Suc k < length rest \<longrightarrow>
                     \<not> page_stops (offset + PAGE_SIZE + k * PAGE_SIZE) (rest ! k)"
          and ih2: "err' = None \<longrightarrow> rest \<noteq> [] \<and>
                     page_stops (offset + PAGE_SIZE + (length rest - 1) * PAGE_SIZE) (last rest)"
          by blast+
        have a: "\<forall>k. Suc k < length pages \<longrightarrow> \<not> page_stops (offset + k * PAGE_SIZE) (pages ! k)"
        proof (intro allI impI)
          fix k assume k: "Suc k < length pages"
          show "\<not> page_stops (offset + k * PAGE_SIZE) (pages ! k)"
          proof (cases k)
            case 0
            with False p show ?thesis by simp
          next
            case (Suc j)
            with k p have "Suc j < length rest" by simp
            with ih1 have "\<not> page_stops (offset + PAGE_SIZE + j * PAGE_SIZE) (rest ! j)" by blast
            with Suc p show ?thesis by (simp add: add.assoc)
          qed
        qed
        have b: "err = None \<longrightarrow> pages \<noteq> [] \<and>
                   page_stops (offset + (length pages - 1) * PAGE_SIZE) (last pages)"
        proof
          assume "err = None"
          with e ih2 have rn: "rest \<noteq> []"
            and st: "page_stops (offset + PAGE_SIZE + (length rest - 1) * PAGE_SIZE) (last rest)"
            by blast+
          from rn have "offset + PAGE_SIZE + (length rest - 1) * PAGE_SIZE
              = offset + (length pages - 1) * PAGE_SIZE"
            using p by (cases rest) simp_all
          with st have "page_stops (offset + (length pages - 1) * PAGE_SIZE) (last rest)"
            by (simp only:)
          with rn p show "pages \<noteq> [] \<and>
                   page_stops (offset + (length pages - 1) * PAGE_SIZE) (last pages)"
            by simp
        qed
        from a b show ?thesis by blast
      qed
    qed
  qed
qed

lemma requests_extend:
  assumes "requests io1 = requests io @ [req]" and "requests io2 = requests io1" and "0 < j"
    and "requests io3 = requests io2 @ replicate j req"
  shows "\<exists>j>0. requests io3 = requests io @ replicate j req"
proof -
  from assms have "requests io3 = requests io @ replicate (Suc j) req"
    by (simp add: replicate_app_Cons_same)
  then show ?thesis by blast
qed

lemma fetch_attempts_requests:
  "attempt < 3 \<Longrightarrow>
   \<exists>j>0. requests (snd (fetch_attempts c req attempt retry_delay io)) = requests io @ replicate j req"
proof (induction c req attempt retry_delay io rule: fetch_attempts.induct)
  case (1 c req attempt retry_delay io)
  obtain answer io1 where g: "client_get c req io = (answer, io1)"
    by (cases "client_get c req io")
  then have r1: "requests io1 = requests io @ [req]"
    by (auto simp: client_get_def split: prod.splits)
  have one: "\<exists>j>0. requests io1 = requests io @ replicate j req"
    using r1 by (intro exI [of _ 1]) simp
  note more = requests_extend [OF r1]
  show ?case
  proof (cases answer)
    case (Inl e)
    with g 1(3) one show ?thesis by (simp add: fetch_attempts.simps [of c req attempt])
  next
    case (Inr response)
    show ?thesis
    proof (cases "status_code response = 429 \<and> attempt < 3 - 1")
      case True
      then have lt: "attempt + 1 < 3" by simp
      define io2 where "io2 = io1\<lparr>logged := logged io1 @ [(''warning'', ''Rate limited (429), retrying'')],
                      sleeps := sleeps io1 @ [retry_delay]\<rparr>"
      from 1(1) [OF 1(3) g [symmetric] Inr True lt]
      obtain j where j: "0 < j"
        "requests (snd (fetch_attempts c req (attempt + 1) (retry_delay * 2) io2))
           = requests io2 @ replicate j req"
        unfolding io2_def by blast
      have "requests io2 = requests io1" by (simp add: io2_def)
      from more [OF this j] show ?thesis
        using True g Inr 1(3) by (simp add: fetch_attempts.simps [of c req attempt] io2_def)
    next
      case False
      define io2 where "io2 = (if status_code response = 429
                           then io1\<lparr>logged := logged io1 @ [(''error'', ''Rate limited'')]\<rparr>
                           else io1)"
      have r2: "requests io2 = requests io1" by (simp add: io2_def)
      show ?thesis
      proof (cases "raise_for_status response")
        case None
        with False g Inr 1(3) one r2 show ?thesis
          by (auto simp add: fetch_attempts.simps [of c req attempt] Let_def io2_def)
      next
        case (Some e)
        show ?thesis
        proof (cases "attempt = 3 - 1")
          case True
          with Some False g Inr 1(3) one r2 show ?thesis
            by (auto simp add: fetch_attempts.simps [of c req 2] Let_def io2_def)
        next
          case na: False
          with 1(3) have lt: "attempt + 1 < 3" by simp
          from 1(2) [OF 1(3) g [symmetric] Inr False io2_def Some na lt]
          obtain j where j: "0 < j"
            "requests (snd (fetch_attempts c req (attempt + 1) retry_delay io2))
               = requests io2 @ replicate j req"
            by blast
          from more [OF r2 j] show ?thesis
            using Some False g Inr 1(3) na
            by (simp add: fetch_attempts.simps [of c req attempt] Let_def io2_def)
        qed
      qed
    qed
  qed
qed

lemma fetch_with_retry_requests:
  "fetch_with_retry (Some c) req io = (answer, io1) \<Longrightarrow>
   \<exists>j>0. requests io1 = requests io @ replicate j req"
  using fetch_attempts_requests [of 0 c req 1 io] by (simp add: fetch_with_retry_def)

lemma remdups_adj_replicate_append:
  "0 < j \<Longrightarrow> ys = [] \<or> hd ys \<noteq> x \<Longrightarrow> remdups_adj (replicate j x @ ys) = x # remdups_adj ys"
proof (induction j)
  case 0
  then show ?case by simp
next
  case (Suc j)
  show ?case
  proof (cases j)
    case 0
    with Suc.prems show ?thesis by (cases ys) auto
  next
    case (Suc i)
    with Suc.IH Suc.prems have "remdups_adj (replicate j x @ ys) = x # remdups_adj ys" by simp
    moreover have "replicate j x @ ys = x # replicate i x @ ys" using Suc by simp
    ultimately show ?thesis by simp
  qed
qed

lemma page_request_inj: "page_request params key a = page_request params key b \<Longrightarrow> a = b"
proof -
  assume "page_request params key a = page_request params key b"
  then have "str_int (int a) = str_int (int b)" by (simp add: page_request_def)
  then have "int a = int b" by (rule str_int_inj)
  then show ?thesis by simp
qed

lemma fetch_pages_requests:
  assumes "fetch_pages (Some c) params key offset io = (pages, err, io1)"
    and "offset < MAX_TOTAL_RESULTS"
  shows "\<exists>rs. requests io1 = requests io @ rs \<and>
           remdups_adj rs =
             map (\<lambda>k. page_request params key (offset + k * PAGE_SIZE))
               [0..<length pages + (if err = None then 0 else 1)]"
  using assms
proof (induction "Some c" params key offset io arbitrary: pages err io1 rule: fetch_pages.induct)
  case (1 params key offset io)
  let ?req = "page_request params key offset"
  obtain answer io2 where f: "fetch_with_retry (Some c) ?req io = (answer, io2)"
    by (cases "fetch_with_retry (Some c) ?req io")
  from fetch_with_retry_requests [OF f] obtain j where j: "0 < j"
    "requests io2 = requests io @ replicate j ?req" by blast
  have single: "remdups_adj (replicate j ?req) = [?req]"
    using remdups_adj_replicate_append [OF j(1), of "[]" ?req] by simp
  show ?case
  proof (cases answer)
    case (Inl e)
    with f 1(2,3) have "pages = []" "err = Some e" "io1 = io2"
      by (auto simp add: fetch_pages.simps [of _ params key offset])
    with j single show ?thesis by simp
  next
    case (Inr got)
    show ?thesis
    proof (cases got)
      case None
      with f Inr fetch_with_retry_not_None show ?thesis by metis
    next
      case (Some data)
      show ?thesis
      proof (cases "page_stops offset data")
        case True
        with f Inr Some 1(2,3) have "pages = [data]" "err = None" "io1 = io2"
          by (simp_all add: fetch_pages.simps [of _ params key offset] page_stops_def)
        with j single show ?thesis by simp
      next
        case False
        then have cont: "\<not> (MAX_TOTAL_RESULTS \<le> offset + PAGE_SIZE
            \<or> page_total data \<le> int (offset + PAGE_SIZE)
            \<or> length (page_results data) < PAGE_SIZE)"
          by (simp add: page_stops_def)
        obtain rest err' io3 where r:
          "fetch_pages (Some c) params key (offset + PAGE_SIZE) io2 = (rest, err', io3)"
          by (cases "fetch_pages (Some c) params key (offset + PAGE_SIZE) io2") auto
        from cont have lt: "offset + PAGE_SIZE < MAX_TOTAL_RESULTS" by simp
        from f Inr Some cont r 1(2,3) have p: "pages = data # rest" and e: "err = err'"
          and i: "io1 = io3"
          by (simp_all add: fetch_pages.simps [of _ params key offset])
        let ?m = "length rest + (if err' = None then 0 else 1)"
        from 1(1) [OF 1(3) f [symmetric] Inr Some cont r lt]
        obtain rs where rs: "requests io3 = requests io2 @ rs"
          "remdups_adj rs = map (\<lambda>k. page_request params key (offset + PAGE_SIZE + k * PAGE_SIZE)) [0..<?m]"
          by blast
        have hd_rs: "rs = [] \<or> hd rs \<noteq> ?req"
        proof (cases "rs = []")
          case True
          then show ?thesis by simp
        next
          case False
          then have ne: "remdups_adj rs \<noteq> []" by simp
          with rs(2) have "0 < ?m" by (cases "?m") auto
          then have "[0..<?m] = 0 # [1..<?m]" by (simp add: upt_conv_Cons)
          with rs(2) have "hd (remdups_adj rs) = page_request params key (offset + PAGE_SIZE)"
            by simp
          then have "hd rs = page_request params key (offset + PAGE_SIZE)"
            by simp
          moreover have "page_request params key (offset + PAGE_SIZE) \<noteq> ?req"
            using page_request_inj [of params key "offset + PAGE_SIZE" offset]
            by (auto simp: PAGE_SIZE_def)
          ultimately show ?thesis by simp
        qed
        have "remdups_adj (replicate j ?req @ rs) = ?req # remdups_adj rs"
          by (rule remdups_adj_replicate_append [OF j(1) hd_rs])
        also have "\<dots> = map (\<lambda>k. page_request params key (offset + k * PAGE_SIZE)) [0..<Suc ?m]"
          by (simp add: rs(2) upt_conv_Cons map_Suc_upt [symmetric] add.assoc del: upt_Suc)
        finally have "remdups_adj (replicate j ?req @ rs) =
            map (\<lambda>k. page_request params key (offset + k * PAGE_SIZE))
              [0..<length pages + (if err = None then 0 else 1)]"
          using p e by simp
        moreover have "requests io1 = requests io @ replicate j ?req @ rs"
          using i rs(1) j(2) by simp
        ultimately show ?thesis by blast
      qed
    qed
  qed
qed

lemma fetch_full_page:
  "fetch_with_retry (Some (full_pages t)) req io =
     (Inr (Some (full_page t)), io\<lparr>requests := requests io @ [req]\<rparr>)"
  by (simp add: fetch_with_retry_def fetch_attempts.simps [of _ _ 0] client_get_def
      full_pages_def full_page_def raise_for_status_def)

lemma fetch_pages_250:
  "fst (fetch_pages (Some (full_pages 250)) attention_params None 0 fresh_io) =
     [full_page 250, full_page 250, full_page 250]"
  by (simp add: fetch_pages.simps [of _ _ _ 0] fetch_pages.simps [of _ _ _ 100]
      fetch_pages.simps [of _ _ _ 200] fetch_full_page PAGE_SIZE_def MAX_TOTAL_RESULTS_def
      page_total_def page_results_def full_page_def)

lemma fetch_pages_100:
  "fst (fetch_pages (Some (full_pages 100)) attention_params None 0 fresh_io) = [full_page 100]"
  by (simp add: fetch_pages.simps [of _ _ _ 0] fetch_full_page PAGE_SIZE_def MAX_TOTAL_RESULTS_def
      page_total_def page_results_def full_page_def)

text \<open>
  C6, as stated: pagination ends at the first page that is short, reaches the cap, or
  satisfies the caller's \<open>max_results\<close>. Against a service holding 250 records the loop
  fetches three pages although a \<open>max_results\<close> of 50 is satisfied by the first; against one
  reporting a total of 100 it stops after one full page although none of the three
  conditions holds for a \<open>max_results\<close> of 500.
\<close>

theorem pagination_counterexample:
  "fst (fetch_pages (Some (full_pages 250)) attention_params None 0 fresh_io) =
     [full_page 250, full_page 250, full_page 250] \<and>
   spec_page_stops 50 100 (full_page 250) \<and>
   fst (fetch_pages (Some (full_pages 100)) attention_params None 0 fresh_io) = [full_page 100] \<and>
   \<not> spec_page_stops 500 100 (full_page 100)"
  by (simp add: fetch_pages_250 fetch_pages_100 spec_page_stops_def page_results_def full_page_def
      PAGE_SIZE_def MAX_TOTAL_RESULTS_def)

text \<open>
  C6, amended: inside the provider's context the page loop of Semantic Scholar requests
  the offsets 0, 100, 200, ... in order (a request is repeated only by the retry logic) and,
  unless a fetch raises, ends exactly at the first page for which the next offset reaches
  the cap of 1000 or the total the page reports, or which holds fewer than 100 records. No
  \<open>max_results\<close> enters the loop.
\<close>

theorem fetch_pages_stops_at_first_condition:
  assumes "fetch_pages (Some c) params key 0 io = (pages, err, io1)"
  shows "(\<forall>k. Suc k < length pages \<longrightarrow> \<not> page_stops (k * PAGE_SIZE) (pages ! k)) \<and>
         (err = None \<longrightarrow> pages \<noteq> [] \<and> page_stops ((length pages - 1) * PAGE_SIZE) (last pages)) \<and>
         (\<exists>rs. requests io1 = requests io @ rs \<and>
            remdups_adj rs =
              map (\<lambda>k. page_request params key (k * PAGE_SIZE))
                [0..<length pages + (if err = None then 0 else 1)])"
proof -
  have z: "0 < MAX_TOTAL_RESULTS" by (simp add: MAX_TOTAL_RESULTS_def)
  from fetch_pages_stops [OF assms z] fetch_pages_requests [OF assms z]
  show ?thesis by simp
qed

theorem fetch_pages_stops_at_first_condition_witness:
  "fetch_pages (Some (full_pages 250)) attention_params None 0 fresh_io =
     ([full_page 250, full_page 250, full_page 250], None,
      fresh_io\<lparr>requests := map (\<lambda>k. page_request attention_params None (k * PAGE_SIZE)) [0, 1, 2]\<rparr>) \<and>
   \<not> page_stops 0 (full_page 250) \<and> \<not> page_stops 100 (full_page 250) \<and>
   page_stops 200 (full_page 250)"
proof -
  have e: "fetch_pages (Some (full_pages 250)) attention_params None 0 fresh_io =
     ([full_page 250, full_page 250, full_page 250], None,
      fresh_io\<lparr>requests := map (\<lambda>k. page_request attention_params None (k * PAGE_SIZE)) [0, 1, 2]\<rparr>)"
    by (simp add: fetch_pages.simps [of _ _ _ 0] fetch_pages.simps [of _ _ _ 100]
        fetch_pages.simps [of _ _ _ 200] fetch_full_page PAGE_SIZE_def MAX_TOTAL_RESULTS_def
        page_total_def page_results_def full_page_def fresh_io_def)
  from fetch_pages_stops_at_first_condition [OF e]
  have a: "\<forall>k. Suc k < 3 \<longrightarrow> \<not> page_stops (k * PAGE_SIZE)
             ([full_page 250, full_page 250, full_page 250] ! k)"
    and b: "page_stops (2 * PAGE_SIZE) (full_page 250)"
    by (simp_all add: mult_2)
  from a [rule_format, of 0] a [rule_format, of 1] b e show ?thesis
    by (simp add: PAGE_SIZE_def)
qed

section \<open>Streaming search\<close>

lemma stream_step_iff:
  "stream_step on_error s s1 \<longleftrightarrow>
     (\<exists>i<length (tasks s). task_step on_error s i = Some s1) \<or> consumer_step s = Some s1"
proof -
  have "set (List.map_filter (task_step on_error s) [0..<length (tasks s)])
          = {s2. \<exists>i<length (tasks s). task_step on_error s i = Some s2}"
    by (force simp: List.map_filter_def image_iff)
  then show ?thesis
    by (auto simp: stream_step_def successors_def split: option.splits)
qed

lemma run_schedule_steps:
  "run_schedule on_error schedule s = Some s1 \<Longrightarrow>
   ((stream_step on_error) ^^ length schedule) s s1"
proof (induction on_error schedule s rule: run_schedule.induct)
  case (1 on_error s)
  then show ?case by simp
next
  case (2 on_error i schedule s)
  from "2.prems" obtain s2 where t: "task_step on_error s i = Some s2"
    and r: "run_schedule on_error schedule s2 = Some s1"
    by (auto split: option.splits)
  from t have "i < length (tasks s)"
    by (auto simp: task_step_def split: if_splits)
  with t have "stream_step on_error s s2"
    by (auto simp: stream_step_iff)
  moreover from "2.IH" [OF t r] have "((stream_step on_error) ^^ length schedule) s2 s1" .
  ultimately have "((stream_step on_error) ^^ Suc (length schedule)) s s1"
    by (rule relpowp_Suc_I2)
  then show ?case by simp
next
  case (3 on_error schedule s)
  from "3.prems" obtain s2 where t: "consumer_step s = Some s2"
    and r: "run_schedule on_error schedule s2 = Some s1"
    by (auto split: option.splits)
  from t have "stream_step on_error s s2"
    by (simp add: stream_step_iff)
  moreover from "3.IH" [OF t r] have "((stream_step on_error) ^^ length schedule) s2 s1" .
  ultimately have "((stream_step on_error) ^^ Suc (length schedule)) s s1"
    by (rule relpowp_Suc_I2)
  then show ?case by simp
qed

lemma queue_papers_append:
  "queue_papers (q @ r) = queue_papers q @ queue_papers r"
  by (induction q rule: queue_papers.induct) simp_all

lemma papers_only_append:
  "papers_only (q @ r) = (papers_only q \<and> papers_only r)"
  by (induction q rule: papers_only.induct) simp_all

lemma stream_inv_init:
  assumes "run_search a query max_results = (xs, None)"
    and "run_search b query max_results = (ys, None)"
  shows "stream_inv xs ys (stream_init query [a, b] max_results)"
  unfolding stream_inv_def
  using assms by (simp add: stream_init_def start_task_def)
lemma stream_inv_task_A:
  assumes inv: "stream_inv xs ys s" and step: "task_step on_error s 0 = Some s1"
  shows "stream_inv xs ys s1"
proof -
  from inv obtain nA tA nB tB where
    t: "tasks s = [(nA, tA), (nB, tB)]" and nfA: "no_failure tA" and nfB: "no_failure tB"
    and sh: "\<forall>zs \<in> shuffles (remaining tA) (remaining tB).
               observed s @ queue_papers (queue s) @ zs \<in> shuffles xs ys"
    and act: "active_tasks s = (if tA = Finished then 0 else 1) + (if tB = Finished then 0 else 1)"
    and q: "if tA = Finished \<and> tB = Finished then
              (stream_end s = None \<and> (\<exists>q. queue s = q @ [NoneItem] \<and> papers_only q))
              \<or> (stream_end s = Some Ended \<and> queue s = [])
            else stream_end s = None \<and> papers_only (queue s)"
    unfolding stream_inv_def by blast
  show ?thesis
  proof (cases tA)
    case Finished
    with step t show ?thesis by (simp add: task_step_def)
  next
    case (Running ps err)
    with nfA have err: "err = None" by simp
    show ?thesis
    proof (cases ps)
      case Nil
      with Running err step t have s1: "s1 = (finally_block s)\<lparr>tasks := [(nA, Finished), (nB, tB)]\<rparr>"
        by (simp add: task_step_def)
      from Running q have q1: "stream_end s = None" "papers_only (queue s)" by simp_all
      show ?thesis
        unfolding stream_inv_def
        using sh act q1 nfB Running Nil
        by (auto simp: s1 finally_block_def Let_def queue_papers_append papers_only_append)
    next
      case (Cons p ps1)
      with Running err step t have s1:
        "s1 = s\<lparr>queue := queue s @ [PaperItem p], tasks := [(nA, Running ps1 None), (nB, tB)]\<rparr>"
        by (simp add: task_step_def)
      from Running q have q1: "stream_end s = None" "papers_only (queue s)" by simp_all
      have "\<forall>zs \<in> shuffles ps1 (remaining tB).
              observed s @ queue_papers (queue s @ [PaperItem p]) @ zs \<in> shuffles xs ys"
      proof
        fix zs assume "zs \<in> shuffles ps1 (remaining tB)"
        then have "p # zs \<in> shuffles (p # ps1) (remaining tB)"
          by (rule Cons_in_shuffles_leftI)
        with sh Running Cons show
          "observed s @ queue_papers (queue s @ [PaperItem p]) @ zs \<in> shuffles xs ys"
          by (simp add: queue_papers_append)
      qed
      then show ?thesis
        unfolding stream_inv_def
        using act q1 nfB Running
        by (auto simp: s1 papers_only_append)
    qed
  qed
qed

lemma stream_inv_task_B:
  assumes inv: "stream_inv xs ys s" and step: "task_step on_error s 1 = Some s1"
  shows "stream_inv xs ys s1"
proof -
  from inv obtain nA tA nB tB where
    t: "tasks s = [(nA, tA), (nB, tB)]" and nfA: "no_failure tA" and nfB: "no_failure tB"
    and sh: "\<forall>zs \<in> shuffles (remaining tA) (remaining tB).
               observed s @ queue_papers (queue s) @ zs \<in> shuffles xs ys"
    and act: "active_tasks s = (if tA = Finished then 0 else 1) + (if tB = Finished then 0 else 1)"
    and q: "if tA = Finished \<and> tB = Finished then
              (stream_end s = None \<and> (\<exists>q. queue s = q @ [NoneItem] \<and> papers_only q))
              \<or> (stream_end s = Some Ended \<and> queue s = [])
            else stream_end s = None \<and> papers_only (queue s)"
    unfolding stream_inv_def by blast
  show ?thesis
  proof (cases tB)
    case Finished
    with step t show ?thesis by (simp add: task_step_def)
  next
    case (Running ps err)
    with nfB have err: "err = None" by simp
    show ?thesis
    proof (cases ps)
      case Nil
      with Running err step t have s1: "s1 = (finally_block s)\<lparr>tasks := [(nA, tA), (nB, Finished)]\<rparr>"
        by (simp add: task_step_def)
      from Running q have q1: "stream_end s = None" "papers_only (queue s)" by simp_all
      show ?thesis
        unfolding stream_inv_def
        using sh act q1 nfA Running Nil
        by (auto simp: s1 finally_block_def Let_def queue_papers_append papers_only_append)
    next
      case (Cons p ps1)
      with Running err step t have s1:
        "s1 = s\<lparr>queue := queue s @ [PaperItem p], tasks := [(nA, tA), (nB, Running ps1 None)]\<rparr>"
        by (simp add: task_step_def)
      from Running q have q1: "stream_end s = None" "papers_only (queue s)" by simp_all
      have "\<forall>zs \<in> shuffles (remaining tA) ps1.
              observed s @ queue_papers (queue s @ [PaperItem p]) @ zs \<in> shuffles xs ys"
      proof
        fix zs assume "zs \<in> shuffles (remaining tA) ps1"
        then have "p # zs \<in> shuffles (remaining tA) (p # ps1)"
          by (rule Cons_in_shuffles_rightI)
        with sh Running Cons show
          "observed s @ queue_papers (queue s @ [PaperItem p]) @ zs \<in> shuffles xs ys"
          by (simp add: queue_papers_append)
      qed
      then show ?thesis
        unfolding stream_inv_def
        using act q1 nfA Running
        by (auto simp: s1 papers_only_append)
    qed
  qed
qed

lemma papers_only_head:
  "papers_only (x # q) \<Longrightarrow> \<exists>p. x = PaperItem p \<and> papers_only q"
  by (cases x) simp_all

lemma stream_inv_consumer:
  assumes inv: "stream_inv xs ys s" and step: "consumer_step s = Some s1"
  shows "stream_inv xs ys s1"
proof -
  from inv obtain nA tA nB tB where
    t: "tasks s = [(nA, tA), (nB, tB)]" and nfA: "no_failure tA" and nfB: "no_failure tB"
    and sh: "\<forall>zs \<in> shuffles (remaining tA) (remaining tB).
               observed s @ queue_papers (queue s) @ zs \<in> shuffles xs ys"
    and act: "active_tasks s = (if tA = Finished then 0 else 1) + (if tB = Finished then 0 else 1)"
    and q: "if tA = Finished \<and> tB = Finished then
              (stream_end s = None \<and> (\<exists>q. queue s = q @ [NoneItem] \<and> papers_only q))
              \<or> (stream_end s = Some Ended \<and> queue s = [])
            else stream_end s = None \<and> papers_only (queue s)"
    unfolding stream_inv_def by blast
  from step have running: "stream_end s = None"
    by (auto simp: consumer_step_def split: option.splits)
  from step obtain x rest where qs: "queue s = x # rest"
    by (auto simp: consumer_step_def split: option.splits list.splits)
  show ?thesis
  proof (cases "tA = Finished \<and> tB = Finished")
    case False
    with q qs have "papers_only (x # rest)" by simp
    then obtain p where x: "x = PaperItem p" and po: "papers_only rest"
      using papers_only_head by blast
    from step running qs x have s1: "s1 = s\<lparr>queue := rest, observed := observed s @ [p]\<rparr>"
      by (simp add: consumer_step_def)
    show ?thesis
      unfolding stream_inv_def
      using t nfA nfB sh act False running po qs x
      by (auto simp: s1)
  next
    case True
    with q running obtain q0 where q0: "queue s = q0 @ [NoneItem]" and po: "papers_only q0"
      by auto
    show ?thesis
    proof (cases q0)
      case Nil
      with q0 step running have s1: "s1 = s\<lparr>queue := [], stream_end := Some Ended\<rparr>"
        by (simp add: consumer_step_def)
      show ?thesis
        unfolding stream_inv_def
        using t nfA nfB sh act True q0 Nil
        by (auto simp: s1)
    next
      case (Cons y q1)
      with po obtain p where y: "y = PaperItem p" and po1: "papers_only q1"
        using papers_only_head by blast
      from q0 Cons y step running have s1:
        "s1 = s\<lparr>queue := q1 @ [NoneItem], observed := observed s @ [p]\<rparr>"
        by (simp add: consumer_step_def)
      show ?thesis
        unfolding stream_inv_def
        using t nfA nfB sh act True q0 Cons y po1 running
        by (auto simp: s1 queue_papers_append)
    qed
  qed
qed

lemma stream_inv_step:
  assumes "stream_inv xs ys s" and "stream_step on_error s s1"
  shows "stream_inv xs ys s1"
proof -
  from assms(1) have "length (tasks s) = 2"
    unfolding stream_inv_def by auto
  with assms(2) consider "task_step on_error s 0 = Some s1" | "task_step on_error s 1 = Some s1"
    | "consumer_step s = Some s1"
    by (auto simp: stream_step_iff less_Suc_eq numeral_2_eq_2)
  then show ?thesis
    using assms(1) stream_inv_task_A stream_inv_task_B stream_inv_consumer
    by cases blast+
qed

lemma work_update:
  "i < length ts \<Longrightarrow> task_work t + d < task_work (snd (ts ! i)) \<Longrightarrow>
   sum_list (map (\<lambda>t. task_work (snd t)) (ts[i := (n, t)])) + d
     < sum_list (map (\<lambda>t. task_work (snd t)) ts)"
proof (induction ts arbitrary: i)
  case Nil
  then show ?case by simp
next
  case (Cons a ts)
  show ?case
  proof (cases i)
    case 0
    with Cons.prems show ?thesis by simp
  next
    case (Suc j)
    with Cons.prems Cons.IH [of j] show ?thesis by simp
  qed
qed

lemma task_step_work:
  assumes "task_step on_error s i = Some s1"
  shows "work_left s1 < work_left s"
proof -
  from assms have i: "i < length (tasks s)"
    by (auto simp: task_step_def split: if_splits)
  obtain n t where nt: "tasks s ! i = (n, t)" by (cases "tasks s ! i")
  from assms i nt obtain t1 s2 where
    f: "fetch_one_step on_error n t s = Some (t1, s2)"
    and s1: "s1 = s2\<lparr>tasks := (tasks s)[i := (n, t1)]\<rparr>"
    by (auto simp: task_step_def split: option.splits)
  from f have "\<exists>d. length (queue s2) = length (queue s) + d \<and> task_work t1 + d < task_work t"
    by (induction on_error n t s rule: fetch_one_step.induct)
      (auto simp: finally_block_def except_block_def Let_def)
  then obtain d where len: "length (queue s2) = length (queue s) + d"
    and "task_work t1 + d < task_work t"
    by blast
  with nt have w: "task_work t1 + d < task_work (snd (tasks s ! i))"
    by simp
  from work_update [OF i w, of n] len show ?thesis
    by (simp add: work_left_def s1)
qed

lemma consumer_step_work:
  assumes "consumer_step s = Some s1"
  shows "work_left s1 < work_left s"
  using assms
  by (auto simp: consumer_step_def work_left_def split: option.splits list.splits queue_item.splits)

lemma stream_step_work:
  "stream_step on_error s s1 \<Longrightarrow> work_left s1 < work_left s"
  by (auto simp: stream_step_iff task_step_work consumer_step_work)

lemma fetch_one_step_Running:
  "fetch_one_step on_error n (Running ps err) s \<noteq> None"
  by (cases ps; cases err) simp_all

lemma task_step_None:
  assumes "task_step on_error s i = None" and "i < length (tasks s)"
  shows "snd (tasks s ! i) = Finished"
proof (cases "snd (tasks s ! i)")
  case (Running ps err)
  with fetch_one_step_Running [of on_error "fst (tasks s ! i)" ps err s] assms
  show ?thesis by (auto simp: task_step_def split: option.splits)
next
  case Finished
  then show ?thesis .
qed

lemma stream_inv_progress:
  assumes inv: "stream_inv xs ys s" and stuck: "successors on_error s = []"
  shows "stream_end s = Some Ended"
proof (rule ccontr)
  assume ne: "stream_end s \<noteq> Some Ended"
  from inv obtain nA tA nB tB where
    t: "tasks s = [(nA, tA), (nB, tB)]" and nfA: "no_failure tA" and nfB: "no_failure tB"
    and q: "if tA = Finished \<and> tB = Finished then
              (stream_end s = None \<and> (\<exists>q. queue s = q @ [NoneItem] \<and> papers_only q))
              \<or> (stream_end s = Some Ended \<and> queue s = [])
            else stream_end s = None \<and> papers_only (queue s)"
    unfolding stream_inv_def by blast
  from q ne have running: "stream_end s = None"
    by (auto split: if_splits)
  from stuck have c: "consumer_step s = None"
    and a: "task_step on_error s 0 = None" and b: "task_step on_error s 1 = None"
    using t by (auto simp: successors_def upt_rec split: option.splits)
  from c running have empty: "queue s = []"
    by (auto simp: consumer_step_def split: list.splits queue_item.splits)
  from task_step_None [OF a] t have "tA = Finished"
    by simp
  moreover from task_step_None [OF b] t have "tB = Finished"
    by simp
  ultimately show False
    using q running empty by simp
qed

lemma stream_inv_run:
  assumes "((stream_step on_error) ^^ n) s0 s" and "stream_inv xs ys s0"
  shows "stream_inv xs ys s \<and> n + work_left s \<le> work_left s0"
  using assms
proof (induction n arbitrary: s)
  case 0
  then show ?case by simp
next
  case (Suc n)
  from Suc.prems(1) obtain s2 where r: "((stream_step on_error) ^^ n) s0 s2"
    and st: "stream_step on_error s2 s"
    by auto
  from Suc.IH [OF r Suc.prems(2)] have inv: "stream_inv xs ys s2"
    and w: "n + work_left s2 \<le> work_left s0"
    by simp_all
  from stream_inv_step [OF inv st] stream_step_work [OF st] w show ?case
    by simp
qed

lemma work_left_init:
  assumes "run_search a query max_results = (xs, None)"
    and "run_search b query max_results = (ys, None)"
  shows "work_left (stream_init query [a, b] max_results) = 2 * (length xs + length ys) + 6"
  using assms by (simp add: work_left_def stream_init_def start_task_def)

lemma papers_only_no_None:
  "papers_only q \<Longrightarrow> NoneItem \<notin> set q"
  by (induction q rule: papers_only.induct) simp_all

lemma stream_inv_ended:
  assumes "stream_inv xs ys s" and "stream_end s = Some Ended"
  shows "observed s \<in> shuffles xs ys"
  using assms unfolding stream_inv_def
  by (auto split: if_splits)

lemma stream_inv_never_raises:
  assumes "stream_inv xs ys s"
  shows "stream_end s \<noteq> Some (Raised e)"
  using assms unfolding stream_inv_def
  by (auto split: if_splits)

lemma stream_inv_signal:
  assumes "stream_inv xs ys s"
  shows "(NoneItem \<in> set (queue s) \<or> stream_end s = Some Ended)
           \<longleftrightarrow> (\<forall>t \<in> set (tasks s). snd t = Finished)"
  using assms papers_only_no_None [of "queue s"] unfolding stream_inv_def
  by (auto split: if_splits)

text \<open>
  C9. Two providers that do not fail and yield \<open>xs\<close> and \<open>ys\<close> are searched in streaming
  mode, under any error policy and any scheduling of the tasks and the consumer. A run
  takes at most two steps per paper and six more, so it ends. When no task and no
  consumer can move any more, the generator has ended normally; it never raises. When it
  has ended, its caller has observed an interleaving of \<open>xs\<close> and \<open>ys\<close>, each in its own
  order, so \<open>length xs + length ys\<close> papers: five for three and two. \<open>None\<close>, the end of the
  stream, is on the queue or has been read exactly when every task has finished.
\<close>

theorem stream_two_providers_all_papers_then_end:
  assumes "run_search a query max_results = (xs, None)"
    and "run_search b query max_results = (ys, None)"
    and "((stream_step on_error) ^^ n) (stream_init query [a, b] max_results) s"
  shows "n + work_left s \<le> 2 * (length xs + length ys) + 6 \<and>
         (successors on_error s = [] \<longrightarrow> stream_end s = Some Ended) \<and>
         (\<forall>e. stream_end s \<noteq> Some (Raised e)) \<and>
         (stream_end s = Some Ended \<longrightarrow>
            observed s \<in> shuffles xs ys \<and> length (observed s) = length xs + length ys) \<and>
         ((NoneItem \<in> set (queue s) \<or> stream_end s = Some Ended)
            \<longleftrightarrow> (\<forall>t \<in> set (tasks s). snd t = Finished))"
proof -
  from stream_inv_run [OF assms(3) stream_inv_init [OF assms(1) assms(2)]]
  have inv: "stream_inv xs ys s"
    and w: "n + work_left s \<le> work_left (stream_init query [a, b] max_results)"
    by simp_all
  from w work_left_init [OF assms(1) assms(2)]
  have "n + work_left s \<le> 2 * (length xs + length ys) + 6"
    by simp
  moreover from stream_inv_progress [OF inv]
  have "successors on_error s = [] \<longrightarrow> stream_end s = Some Ended"
    by blast
  moreover from stream_inv_never_raises [OF inv]
  have "\<forall>e. stream_end s \<noteq> Some (Raised e)"
    by blast
  moreover from stream_inv_ended [OF inv]
  have "stream_end s = Some Ended \<longrightarrow>
          observed s \<in> shuffles xs ys \<and> length (observed s) = length xs + length ys"
    by (auto dest: length_shuffles)
  moreover note stream_inv_signal [OF inv]
  ultimately show ?thesis
    by blast
qed

theorem stream_two_providers_all_papers_then_end_witness:
  "run_schedule Warn example_schedule
     (stream_init title_query [arxiv_three_papers, openalex_two_papers] 100)
     = Some example_stream_end \<and>
   successors Warn example_stream_end = [] \<and>
   stream_end example_stream_end = Some Ended \<and>
   length (observed example_stream_end) = 5 \<and>
   observed example_stream_end
     \<in> shuffles [attention_arxiv,
                 example_paper ''Deep Residual Learning'' 2015 ''arxiv'' None,
                 example_paper ''Adam'' 2014 ''arxiv'' None]
                [attention_openalex, attention_empty_doi] \<and>
   tasks example_stream_end = [(''arxiv'', Finished), (''openalex'', Finished)]"
proof -
  have a: "run_search arxiv_three_papers title_query 100 =
      ([attention_arxiv,
        example_paper ''Deep Residual Learning'' 2015 ''arxiv'' None,
        example_paper ''Adam'' 2014 ''arxiv'' None], None)"
    by (simp add: arxiv_three_papers_def)
  have b: "run_search openalex_two_papers title_query 100 =
      ([attention_openalex, attention_empty_doi], None)"
    by (simp add: openalex_two_papers_def)
  have names: "provider_name arxiv_three_papers = ''arxiv''"
    "provider_name openalex_two_papers = ''openalex''"
    by (simp_all add: arxiv_three_papers_def openalex_two_papers_def)
  have r: "run_schedule Warn example_schedule
      (stream_init title_query [arxiv_three_papers, openalex_two_papers] 100)
      = Some example_stream_end"
    by (simp add: example_schedule_def stream_init_def start_task_def a b names task_step_def
        consumer_step_def finally_block_def example_stream_end_def)
  have e: "stream_end example_stream_end = Some Ended"
    by (simp add: example_stream_end_def)
  have st: "successors Warn example_stream_end = []"
    by (simp add: successors_def example_stream_end_def task_step_def consumer_step_def upt_rec)
  have len: "length example_schedule = 13"
    by (simp add: example_schedule_def)
  from run_schedule_steps [OF r] have steps:
    "((stream_step Warn) ^^ 13)
       (stream_init title_query [arxiv_three_papers, openalex_two_papers] 100)
       example_stream_end"
    by (simp only: len)
  have t: "tasks example_stream_end = [(''arxiv'', Finished), (''openalex'', Finished)]"
    by (simp add: example_stream_end_def)
  from stream_two_providers_all_papers_then_end [OF a b steps] e r st t
  show ?thesis by simp
qed

end
